theory Spec2Isabelle
  imports Main "HOL-Library.Sublist"
begin

section \<open>The cached task source (cli/src/tasks/cached-task-source.ts)\<close>

subsection \<open>Data\<close>

text \<open>
  A JavaScript exception is a value: \<open>Error msg\<close> stands for \<open>new Error(msg)\<close> and for
  whatever a wrapped source throws or rejects with. An operation that may throw returns
  \<open>error + 'a\<close>, with \<open>Inl\<close> for the exception.
\<close>

datatype error = Error string

text \<open>
  Modelled from the spec: the \<open>Task\<close> type of tasks/types.ts is not among the sources. The
  spec lists an identifier, a title, a completion flag and an optional parallel group; the
  cached source reads the identifier only.
\<close>

record Task =
  task_id :: string
  title :: string
  completed :: bool
  parallel_group :: "int option"

text \<open>
  The wrapped \<open>TaskSource\<close> is an object of unknown class. It is a record of its methods
  over its own state \<open>'s\<close> (the task file on disk); each method returns its result, or the
  exception it raised, with the state it leaves. \<open>src_getTasksInGroup\<close> is the optional
  method of the interface (\<open>None\<close> when the object has none). \<open>src_yamlGetParallelGroup\<close>
  is \<open>Some\<close> exactly when the object is an instance of \<open>YamlTaskSource\<close>, and then holds
  that class's \<open>getParallelGroup\<close>.
\<close>

record 's TaskSource =
  src_getAllTasks :: "'s \<Rightarrow> (error + Task list) \<times> 's"
  src_markComplete :: "string \<Rightarrow> 's \<Rightarrow> (error + unit) \<times> 's"
  src_countCompleted :: "'s \<Rightarrow> (error + nat) \<times> 's"
  src_getTasksInGroup :: "(int \<Rightarrow> 's \<Rightarrow> (error + Task list) \<times> 's) option"
  src_yamlGetParallelGroup :: "(string \<Rightarrow> 's \<Rightarrow> (error + int) \<times> 's) option"

text \<open>The calls a cached source makes on the source it wraps, in the order it makes them.\<close>

datatype call =
    CallGetAllTasks
  | CallMarkComplete string
  | CallCountCompleted
  | CallGetTasksInGroup int
  | CallGetParallelGroup string

text \<open>
  The fields of a \<open>CachedTaskSource\<close>. \<open>innerState\<close> is the state of the wrapped object and
  \<open>innerCalls\<close> the log of the calls made on it; the log is not a field of the class, it
  records the effect on the wrapped source so that writes can be counted.
  \<open>pendingCompletions\<close> is the \<open>Set<string>\<close> as the list of its elements in insertion
  order, which is the order in which a JavaScript set is iterated. \<open>flushTimer\<close> is
  \<open>True\<close> while a timeout is armed.
\<close>

record 's CachedTaskSource =
  inner :: "'s TaskSource"
  innerState :: 's
  innerCalls :: "call list"
  cachedTasks :: "Task list option"
  pendingCompletions :: "string list"
  flushTimer :: bool
  flushIntervalMs :: int
  isShuttingDown :: bool

subsection \<open>Operations\<close>

text \<open>\<open>Set.prototype.add\<close>: an element already present keeps its place.\<close>

definition set_add :: "'a \<Rightarrow> 'a list \<Rightarrow> 'a list" where
  "set_add x xs = (if x \<in> set xs then xs else xs @ [x])"

text \<open>The constructor: \<open>options?.flushIntervalMs ?? 1000\<close>.\<close>

definition new_CachedTaskSource :: "'s TaskSource \<Rightarrow> 's \<Rightarrow> int option \<Rightarrow> 's CachedTaskSource" where
  "new_CachedTaskSource src st opt =
     \<lparr> inner = src, innerState = st, innerCalls = [], cachedTasks = None,
       pendingCompletions = [], flushTimer = False,
       flushIntervalMs = (case opt of None \<Rightarrow> 1000 | Some ms \<Rightarrow> ms),
       isShuttingDown = False \<rparr>"

text \<open>One call of a method of the wrapped source: the state it leaves and the log entry.\<close>

definition call_inner ::
  "call \<Rightarrow> ('s \<Rightarrow> 'r \<times> 's) \<Rightarrow> 's CachedTaskSource \<Rightarrow> 'r \<times> 's CachedTaskSource" where
  "call_inner c m s =
     (case m (innerState s) of
        (r, st) \<Rightarrow> (r, s\<lparr> innerState := st, innerCalls := innerCalls s @ [c] \<rparr>))"

definition not_pending :: "'s CachedTaskSource \<Rightarrow> Task \<Rightarrow> bool" where
  "not_pending s t = (task_id t \<notin> set (pendingCompletions s))"

definition getAllTasks :: "'s CachedTaskSource \<Rightarrow> (error + Task list) \<times> 's CachedTaskSource" where
  "getAllTasks s =
     (case cachedTasks s of
        None \<Rightarrow>
          (case call_inner CallGetAllTasks (src_getAllTasks (inner s)) s of
             (Inl e, s1) \<Rightarrow> (Inl e, s1)
           | (Inr ts, s1) \<Rightarrow>
               (let s2 = s1\<lparr> cachedTasks := Some ts \<rparr>
                in (Inr (filter (not_pending s2) ts), s2)))
      | Some ts \<Rightarrow> (Inr (filter (not_pending s) ts), s))"

definition getNextTask :: "'s CachedTaskSource \<Rightarrow> (error + Task option) \<times> 's CachedTaskSource" where
  "getNextTask s =
     (case getAllTasks s of
        (Inl e, s1) \<Rightarrow> (Inl e, s1)
      | (Inr ts, s1) \<Rightarrow> (Inr (case ts of [] \<Rightarrow> None | t # _ \<Rightarrow> Some t), s1))"

definition scheduleFlush :: "'s CachedTaskSource \<Rightarrow> 's CachedTaskSource" where
  "scheduleFlush s =
     (if flushIntervalMs s = 0 then s
      else if flushTimer s then s
      else s\<lparr> flushTimer := True \<rparr>)"

definition markComplete :: "string \<Rightarrow> 's CachedTaskSource \<Rightarrow> 's CachedTaskSource" where
  "markComplete i s =
     scheduleFlush (s\<lparr> pendingCompletions := set_add i (pendingCompletions s) \<rparr>)"

definition countRemaining :: "'s CachedTaskSource \<Rightarrow> (error + nat) \<times> 's CachedTaskSource" where
  "countRemaining s =
     (case getAllTasks s of
        (Inl e, s1) \<Rightarrow> (Inl e, s1)
      | (Inr ts, s1) \<Rightarrow> (Inr (length ts), s1))"

definition countCompleted :: "'s CachedTaskSource \<Rightarrow> (error + nat) \<times> 's CachedTaskSource" where
  "countCompleted s =
     (case call_inner CallCountCompleted (src_countCompleted (inner s)) s of
        (Inl e, s1) \<Rightarrow> (Inl e, s1)
      | (Inr n, s1) \<Rightarrow> (Inr (n + length (pendingCompletions s1)), s1))"

definition getTasksInGroup ::
  "int \<Rightarrow> 's CachedTaskSource \<Rightarrow> (error + Task list) \<times> 's CachedTaskSource" where
  "getTasksInGroup g s =
     (case src_getTasksInGroup (inner s) of
        None \<Rightarrow> (Inl (Error ''Inner task source does not support getTasksInGroup''), s)
      | Some m \<Rightarrow>
          (case call_inner (CallGetTasksInGroup g) (m g) s of
             (Inl e, s1) \<Rightarrow> (Inl e, s1)
           | (Inr ts, s1) \<Rightarrow> (Inr (filter (not_pending s1) ts), s1)))"

definition getParallelGroup ::
  "string \<Rightarrow> 's CachedTaskSource \<Rightarrow> (error + int) \<times> 's CachedTaskSource" where
  "getParallelGroup ttl s =
     (case src_yamlGetParallelGroup (inner s) of
        None \<Rightarrow> (Inr 0, s)
      | Some m \<Rightarrow> call_inner (CallGetParallelGroup ttl) (m ttl) s)"

text \<open>
  The loop of \<open>flush\<close>: \<open>await this.inner.markComplete(id)\<close> for each pending identifier in
  turn. A rejection leaves the loop, and \<open>flush\<close>, at once.
\<close>

fun flush_loop ::
  "string list \<Rightarrow> 's CachedTaskSource \<Rightarrow> (error + unit) \<times> 's CachedTaskSource" where
  "flush_loop [] s = (Inr (), s)"
| "flush_loop (i # rest) s =
     (case call_inner (CallMarkComplete i) (src_markComplete (inner s) i) s of
        (Inl e, s1) \<Rightarrow> (Inl e, s1)
      | (Inr u, s1) \<Rightarrow> flush_loop rest s1)"

definition flush :: "'s CachedTaskSource \<Rightarrow> (error + unit) \<times> 's CachedTaskSource" where
  "flush s =
     (let s1 = (if flushTimer s then s\<lparr> flushTimer := False \<rparr> else s)
      in if length (pendingCompletions s1) = 0 then (Inr (), s1)
         else (case flush_loop (pendingCompletions s1) s1 of
                 (Inl e, s2) \<Rightarrow> (Inl e, s2)
               | (Inr u, s2) \<Rightarrow>
                   (Inr (), s2\<lparr> pendingCompletions := [], cachedTasks := None \<rparr>)))"

definition invalidateCache :: "'s CachedTaskSource \<Rightarrow> 's CachedTaskSource" where
  "invalidateCache s = s\<lparr> cachedTasks := None \<rparr>"

definition hasPendingWrites :: "'s CachedTaskSource \<Rightarrow> bool" where
  "hasPendingWrites s = (length (pendingCompletions s) > 0)"

subsection \<open>The asynchronous flush, step by step\<close>

text \<open>
  \<open>flush\<close> above is the whole run of the \<open>async\<close> method, from the call to the end, with
  nothing else running in between. The method gives up control at each \<open>await\<close>, and a
  timer callback, a \<open>markComplete\<close> or another \<open>flush\<close> may run there. A flush that has
  started and awaits a write is a \<open>FlushTask\<close>: \<open>position\<close> is the number of entries of
  the pending-completion set that its iterator has passed, \<open>awaited\<close> what the write it
  awaits settles with. As in \<open>flush\<close>, the wrapped method does its work when it is called;
  what the flush waits for is the promise it returned.
\<close>

record FlushTask =
  position :: nat
  awaited :: "error + unit"

datatype flush_status = Settled "error + unit" | Awaiting FlushTask

text \<open>
  The head of the \<open>for\<close> loop with the iterator at entry \<open>i\<close>: the next pending identifier
  is written and the flush awaits the write, or the iterator is done and the flush clears
  the set, unsets the cache and resolves.
\<close>

definition flush_advance :: "nat \<Rightarrow> 's CachedTaskSource \<Rightarrow> flush_status \<times> 's CachedTaskSource" where
  "flush_advance i s =
     (if i < length (pendingCompletions s)
      then (case call_inner (CallMarkComplete (pendingCompletions s ! i))
                   (src_markComplete (inner s) (pendingCompletions s ! i)) s of
              (r, s1) \<Rightarrow> (Awaiting \<lparr> position = Suc i, awaited = r \<rparr>, s1))
      else (Settled (Inr ()), s\<lparr> pendingCompletions := [], cachedTasks := None \<rparr>))"

text \<open>The call of \<open>flush\<close>, up to its first \<open>await\<close> or its early return.\<close>

definition flush_begin :: "'s CachedTaskSource \<Rightarrow> flush_status \<times> 's CachedTaskSource" where
  "flush_begin s =
     (let s1 = (if flushTimer s then s\<lparr> flushTimer := False \<rparr> else s)
      in if length (pendingCompletions s1) = 0 then (Settled (Inr ()), s1)
         else flush_advance 0 s1)"

text \<open>
  A flush resumes when the write it awaits has settled: a rejection is thrown out of
  \<open>flush\<close>, otherwise the loop goes on.
\<close>

definition flush_resume :: "FlushTask \<Rightarrow> 's CachedTaskSource \<Rightarrow> flush_status \<times> 's CachedTaskSource" where
  "flush_resume t s =
     (case awaited t of
        Inl e \<Rightarrow> (Settled (Inl e), s)
      | Inr u \<Rightarrow> flush_advance (position t) s)"

text \<open>A flush resumed again and again until it settles, with nothing else in between.\<close>

function drain :: "FlushTask \<Rightarrow> 's CachedTaskSource \<Rightarrow> (error + unit) \<times> 's CachedTaskSource" where
  "drain t s =
     (case flush_resume t s of
        (Settled r, s1) \<Rightarrow> (r, s1)
      | (Awaiting t1, s1) \<Rightarrow> drain t1 s1)"
  by pat_completeness auto
termination
proof (relation "measure (\<lambda>(t, s). length (pendingCompletions s) - position t)")
  show "wf (measure (\<lambda>(t, s :: 's CachedTaskSource). length (pendingCompletions s) - position t))"
    by simp
next
  fix t :: FlushTask and s :: "'s CachedTaskSource" and x s1 t1
  assume "(x, s1) = flush_resume t s" and "x = Awaiting t1"
  then show "((t1, s1), (t, s))
      \<in> measure (\<lambda>(t, s). length (pendingCompletions s) - position t)"
    by (auto simp: flush_resume_def flush_advance_def call_inner_def
             split: sum.splits if_splits prod.splits)
qed

definition flush_alone :: "'s CachedTaskSource \<Rightarrow> (error + unit) \<times> 's CachedTaskSource" where
  "flush_alone s =
     (case flush_begin s of
        (Settled r, s1) \<Rightarrow> (r, s1)
      | (Awaiting t, s1) \<Rightarrow> drain t s1)"

text \<open>
  The instance with the flushes that have started and not settled, and what the settled
  ones settled with, oldest first. An iterator of a JavaScript set that is cleared goes on
  with the entries added after the \<open>clear\<close>: since entries are only ever added at the end
  or cleared all at once, that is position 0 of the list after the \<open>clear\<close>.
\<close>

record 's Process =
  cached :: "'s CachedTaskSource"
  running :: "FlushTask list"
  outcomes :: "(error + unit) list"

definition new_Process :: "'s CachedTaskSource \<Rightarrow> 's Process" where
  "new_Process s = \<lparr> cached = s, running = [], outcomes = [] \<rparr>"

definition call_markComplete :: "string \<Rightarrow> 's Process \<Rightarrow> 's Process" where
  "call_markComplete i w = w\<lparr> cached := markComplete i (cached w) \<rparr>"

definition call_flush :: "'s Process \<Rightarrow> 's Process" where
  "call_flush w =
     (case flush_begin (cached w) of
        (Settled r, s1) \<Rightarrow> w\<lparr> cached := s1, outcomes := outcomes w @ [r] \<rparr>
      | (Awaiting t, s1) \<Rightarrow> w\<lparr> cached := s1, running := running w @ [t] \<rparr>)"

text \<open>
  The timeout armed by \<open>scheduleFlush\<close>, when it fires: the callback unsets the timer and
  calls \<open>flush\<close>, which runs up to its first \<open>await\<close>; a rejection will be printed, not
  raised.
\<close>

definition timerFired :: "'s Process \<Rightarrow> 's Process" where
  "timerFired w =
     (if flushTimer (cached w)
      then call_flush (w\<lparr> cached := (cached w)\<lparr> flushTimer := False \<rparr> \<rparr>)
      else w)"

text \<open>
  The \<open>k\<close>-th of the running flushes resumes. When it ends with \<open>clear\<close>, the iterators
  of the other running flushes are at the start of what is added from then on.
\<close>

definition resume_flush :: "nat \<Rightarrow> 's Process \<Rightarrow> 's Process" where
  "resume_flush k w =
     (if k < length (running w)
      then (let others = take k (running w) @ drop (Suc k) (running w)
            in case flush_resume (running w ! k) (cached w) of
                 (Awaiting t, s1) \<Rightarrow> w\<lparr> cached := s1, running := (running w)[k := t] \<rparr>
               | (Settled (Inl e), s1) \<Rightarrow>
                   w\<lparr> cached := s1, running := others, outcomes := outcomes w @ [Inl e] \<rparr>
               | (Settled (Inr u), s1) \<Rightarrow>
                   w\<lparr> cached := s1, running := map (\<lambda>t. t\<lparr> position := 0 \<rparr>) others,
                      outcomes := outcomes w @ [Inr u] \<rparr>)
      else w)"

text \<open>
  The loop of \<open>flushSync\<close>: \<open>this.inner.markComplete(id)\<close> inside \<open>try\<close>/\<open>catch\<close>, not
  awaited. Whatever the call raises or rejects with is dropped and the loop goes on.
\<close>

fun flushSync_loop :: "string list \<Rightarrow> 's CachedTaskSource \<Rightarrow> 's CachedTaskSource" where
  "flushSync_loop [] s = s"
| "flushSync_loop (i # rest) s =
     flushSync_loop rest (snd (call_inner (CallMarkComplete i) (src_markComplete (inner s) i) s))"

definition flushSync :: "'s CachedTaskSource \<Rightarrow> 's CachedTaskSource" where
  "flushSync s =
     (if isShuttingDown s then s
      else (let s1 = s\<lparr> isShuttingDown := True \<rparr>
            in if length (pendingCompletions s1) > 0
               then flushSync_loop (pendingCompletions s1) s1
               else s1))"

text \<open>
  The static registry \<open>instances\<close> is the list of the live instances. \<open>exitHandler\<close> is the
  closure of \<open>registerExitHandlers\<close>. \<open>process.exit\<close> emits the \<open>exit\<close> event, so the
  handlers of SIGINT and SIGTERM run the closure and then the \<open>exit\<close> listener runs it again;
  each returns the exit status with the instances.
\<close>

definition exitHandler :: "'s CachedTaskSource list \<Rightarrow> 's CachedTaskSource list" where
  "exitHandler instances = map flushSync instances"

definition process_exit :: "int \<Rightarrow> 's CachedTaskSource list \<Rightarrow> int \<times> 's CachedTaskSource list" where
  "process_exit status instances = (status, exitHandler instances)"

definition on_SIGINT :: "'s CachedTaskSource list \<Rightarrow> int \<times> 's CachedTaskSource list" where
  "on_SIGINT instances = process_exit 130 (exitHandler instances)"

definition on_SIGTERM :: "'s CachedTaskSource list \<Rightarrow> int \<times> 's CachedTaskSource list" where
  "on_SIGTERM instances = process_exit 143 (exitHandler instances)"

subsection \<open>A backend to run the model on\<close>

text \<open>
  An in-memory task source for concrete runs: its state is the list of identifiers written
  so far, \<open>ts\<close> is its task list and a write of an identifier in \<open>bad\<close> is rejected. It has
  neither \<open>getTasksInGroup\<close> nor the class \<open>YamlTaskSource\<close>.
\<close>

definition memSource :: "Task list \<Rightarrow> string list \<Rightarrow> (string list) TaskSource" where
  "memSource ts bad =
     \<lparr> src_getAllTasks = (\<lambda>st. (Inr (filter (\<lambda>t. task_id t \<notin> set st) ts), st)),
       src_markComplete = (\<lambda>i st. if i \<in> set bad then (Inl (Error ''write failed''), st)
                                   else (Inr (), st @ [i])),
       src_countCompleted = (\<lambda>st. (Inr (length (remdups st)), st)),
       src_getTasksInGroup = None,
       src_yamlGetParallelGroup = None \<rparr>"

text \<open>The same backend with \<open>getTasksInGroup\<close>, as a \<open>YamlTaskSource\<close> has it.\<close>

definition yamlSource :: "Task list \<Rightarrow> string list \<Rightarrow> (string list) TaskSource" where
  "yamlSource ts bad =
     (memSource ts bad)
       \<lparr> src_getTasksInGroup :=
           Some (\<lambda>g st. (Inr (filter (\<lambda>t. task_id t \<notin> set st \<and> parallel_group t = Some g) ts), st)),
         src_yamlGetParallelGroup :=
           Some (\<lambda>ttl st. (Inr (case filter (\<lambda>t. title t = ttl) ts of
                                   [] \<Rightarrow> 0
                                 | t # _ \<Rightarrow> (case parallel_group t of None \<Rightarrow> 0 | Some g \<Rightarrow> g)), st)) \<rparr>"

definition taskA :: Task where
  "taskA = \<lparr> task_id = ''a'', title = ''first'', completed = False, parallel_group = Some 1 \<rparr>"

definition taskB :: Task where
  "taskB = \<lparr> task_id = ''b'', title = ''second'', completed = False, parallel_group = Some 1 \<rparr>"

definition fresh :: "string list \<Rightarrow> (string list) CachedTaskSource" where
  "fresh bad = new_CachedTaskSource (memSource [taskA, taskB] bad) [] None"

definition freshYaml :: "(string list) CachedTaskSource" where
  "freshYaml = new_CachedTaskSource (yamlSource [taskA, taskB] []) [] None"

text \<open>
  Three instances: one that has read its tasks once, one with three pending completions
  over a backend that rejects the write of \<open>b\<close>, one with a pending completion and a
  populated cache.
\<close>

definition read_once :: "(string list) CachedTaskSource" where
  "read_once = snd (getAllTasks (fresh []))"

definition three_pending :: "(string list) CachedTaskSource" where
  "three_pending = fold markComplete [''a'', ''b'', ''c''] (fresh [''b''])"

definition pending_with_cache :: "(string list) CachedTaskSource" where
  "pending_with_cache = markComplete ''a'' read_once"

text \<open>
  Two runs of a new instance. In \<open>overlapped\<close>, \<open>markComplete("a")\<close> arms the timer, the
  timer fires and its flush awaits the write of \<open>a\<close>, the caller calls \<open>flush\<close>, and then
  the two flushes resume, the timer's first. In \<open>timer_between\<close> the timer's flush has
  settled before \<open>a\<close> is marked complete a second time and the caller's flush runs.
\<close>

definition overlapped :: "(string list) Process" where
  "overlapped =
     resume_flush 0 (resume_flush 0 (call_flush (timerFired
       (call_markComplete ''a'' (new_Process (fresh []))))))"

definition timer_between :: "(string list) Process" where
  "timer_between =
     resume_flush 0 (call_flush (call_markComplete ''a''
       (resume_flush 0 (timerFired (call_markComplete ''a'' (new_Process (fresh [])))))))"

section \<open>The Copilot engine adapter (cli/src/engines/copilot.ts)\<close>

subsection \<open>Strings\<close>

text \<open>
  A JavaScript string is a sequence of UTF-16 code units. The model has the code units
  \<open>0x00\<close> to \<open>0xFF\<close>, one \<open>char\<close> each. On these, the white space of \<open>\s\<close> and of
  \<open>trim\<close> is tab, line feed, vertical tab, form feed, carriage return, space and the
  no-break space; the line terminators that \<open>.\<close> does not match are line feed and carriage
  return; \<open>toLowerCase\<close> maps \<open>A\<close> to \<open>Z\<close> and the capital letters of Latin-1.
\<close>

abbreviation LF :: char where "LF \<equiv> CHR 0x0A"
abbreviation CR :: char where "CR \<equiv> CHR 0x0D"
abbreviation SP :: char where "SP \<equiv> CHR 0x20"

definition isWhiteSpace :: "char \<Rightarrow> bool" where
  "isWhiteSpace c = (c \<in> set [CHR 0x09, LF, CHR 0x0B, CHR 0x0C, CR, SP, CHR 0xA0])"

definition isLineTerminator :: "char \<Rightarrow> bool" where
  "isLineTerminator c = (c = LF \<or> c = CR)"

definition upper_letters :: string where
  "upper_letters = ''ABCDEFGHIJKLMNOPQRSTUVWXYZ'' @
     [CHR 0xC0, CHR 0xC1, CHR 0xC2, CHR 0xC3, CHR 0xC4, CHR 0xC5, CHR 0xC6, CHR 0xC7,
      CHR 0xC8, CHR 0xC9, CHR 0xCA, CHR 0xCB, CHR 0xCC, CHR 0xCD, CHR 0xCE, CHR 0xCF,
      CHR 0xD0, CHR 0xD1, CHR 0xD2, CHR 0xD3, CHR 0xD4, CHR 0xD5, CHR 0xD6,
      CHR 0xD8, CHR 0xD9, CHR 0xDA, CHR 0xDB, CHR 0xDC, CHR 0xDD, CHR 0xDE]"

definition lower_letters :: string where
  "lower_letters = ''abcdefghijklmnopqrstuvwxyz'' @
     [CHR 0xE0, CHR 0xE1, CHR 0xE2, CHR 0xE3, CHR 0xE4, CHR 0xE5, CHR 0xE6, CHR 0xE7,
      CHR 0xE8, CHR 0xE9, CHR 0xEA, CHR 0xEB, CHR 0xEC, CHR 0xED, CHR 0xEE, CHR 0xEF,
      CHR 0xF0, CHR 0xF1, CHR 0xF2, CHR 0xF3, CHR 0xF4, CHR 0xF5, CHR 0xF6,
      CHR 0xF8, CHR 0xF9, CHR 0xFA, CHR 0xFB, CHR 0xFC, CHR 0xFD, CHR 0xFE]"

definition lower_char :: "char \<Rightarrow> char" where
  "lower_char c =
     (case map_of (zip upper_letters lower_letters) c of Some l \<Rightarrow> l | None \<Rightarrow> c)"

definition toLowerCase :: "string \<Rightarrow> string" where
  "toLowerCase s = map lower_char s"

definition trim :: "string \<Rightarrow> string" where
  "trim s = rev (dropWhile isWhiteSpace (rev (dropWhile isWhiteSpace s)))"

definition startsWith :: "string \<Rightarrow> string \<Rightarrow> bool" where
  "startsWith s p = (take (length p) s = p)"

fun includes_str :: "string \<Rightarrow> string \<Rightarrow> bool" where
  "includes_str [] t = (t = [])"
| "includes_str (c # cs) t = (startsWith (c # cs) t \<or> includes_str cs t)"

text \<open>\<open>s.split("\n")\<close> and \<open>lines.join(sep)\<close>.\<close>

fun split_lines :: "string \<Rightarrow> string list" where
  "split_lines [] = [] # []"
| "split_lines (c # cs) =
     (if c = LF then [] # split_lines cs
      else (case split_lines cs of [] \<Rightarrow> [c] # [] | l # ls \<Rightarrow> (c # l) # ls))"

fun join :: "string \<Rightarrow> string list \<Rightarrow> string" where
  "join sep [] = []"
| "join sep [l] = l"
| "join sep (l # m # ls) = l @ sep @ join sep (m # ls)"

text \<open>A number in a template literal: its decimal digits.\<close>

function decimal :: "nat \<Rightarrow> string" where
  "decimal n = (if n < 10 then [''0123456789'' ! n] else decimal (n div 10) @ [''0123456789'' ! (n mod 10)])"
  by pat_completeness auto
termination
  by (relation "measure id") auto

definition int_to_string :: "int \<Rightarrow> string" where
  "int_to_string i = (if i < 0 then ''-'' @ decimal (nat (- i)) else decimal (nat i))"

text \<open>The truth value JavaScript gives a \<open>string | null\<close>: \<open>null\<close> and \<open>""\<close> are false.\<close>

definition truthy :: "string option \<Rightarrow> bool" where
  "truthy x = (case x of None \<Rightarrow> False | Some s \<Rightarrow> s \<noteq> [])"

subsection \<open>sanitizePrompt and buildArgs\<close>

text \<open>\<open>replace(/\r?\n/g, " ")\<close>: every line feed, with a carriage return before it if any.\<close>

fun replace_newlines :: "string \<Rightarrow> string" where
  "replace_newlines [] = []"
| "replace_newlines [c] = (if c = LF then [SP] else [c])"
| "replace_newlines (c # d # cs) =
     (if c = CR \<and> d = LF then SP # replace_newlines cs
      else if c = LF then SP # replace_newlines (d # cs)
      else c # replace_newlines (d # cs))"

text \<open>\<open>replace(/\s+/g, " ")\<close>: every maximal run of white space becomes one space.\<close>

function collapse_whitespace :: "string \<Rightarrow> string" where
  "collapse_whitespace [] = []"
| "collapse_whitespace (c # cs) =
     (if isWhiteSpace c then SP # collapse_whitespace (dropWhile isWhiteSpace cs)
      else c # collapse_whitespace cs)"
  by pat_completeness auto
termination
  by (relation "measure length") (auto simp: length_dropWhile_le le_imp_less_Suc)

text \<open>\<open>replace(/c/g, rep)\<close> for a pattern of one character.\<close>

definition replace_all :: "char \<Rightarrow> string \<Rightarrow> string \<Rightarrow> string" where
  "replace_all c rep s = concat (map (\<lambda>x. if x = c then rep else [x]) s)"

text \<open>
  The Windows branch of \<open>sanitizePrompt\<close>: its six \<open>replace\<close> calls, the caret first and
  the double quote last.
\<close>

definition escape_cmd :: "string \<Rightarrow> string" where
  "escape_cmd s =
     replace_all (CHR 0x22) [CHR 0x22, CHR 0x22]
       (replace_all (CHR ''|'') ''^|''
         (replace_all (CHR ''>'') ''^>''
           (replace_all (CHR ''<'') ''^<''
             (replace_all (CHR ''&'') ''^&''
               (replace_all (CHR ''^'') ''^^'' s)))))"

definition sanitizePrompt :: "bool \<Rightarrow> string \<Rightarrow> string" where
  "sanitizePrompt isWindows prompt =
     (let sanitized = trim (collapse_whitespace (replace_newlines prompt))
      in if isWindows then escape_cmd sanitized else sanitized)"

text \<open>
  The escaping as the specification words it: each of \<open>^ & < > |\<close> gets a caret in front
  and each double quote is doubled, every character of the flattened prompt once.
\<close>

definition spec_escape_char :: "char \<Rightarrow> string" where
  "spec_escape_char c =
     (if c = CHR ''^'' \<or> c = CHR ''&'' \<or> c = CHR ''<'' \<or> c = CHR ''>'' \<or> c = CHR ''|''
      then [CHR ''^'', c]
      else if c = CHR 0x22 then [CHR 0x22, CHR 0x22]
      else [c])"

record EngineOptions =
  modelOverride :: "string option"
  engineArgs :: "string list option"

definition buildArgs :: "bool \<Rightarrow> string \<Rightarrow> EngineOptions option \<Rightarrow> string list" where
  "buildArgs isWindows prompt options =
     [''--yolo'', ''--stream=on'', ''-p'', sanitizePrompt isWindows prompt]
     @ (case options of
          None \<Rightarrow> []
        | Some opts \<Rightarrow>
            (case modelOverride opts of
               None \<Rightarrow> []
             | Some m \<Rightarrow> if m \<noteq> [] then [''--model'', m] else [])
            @ (case engineArgs opts of
                 None \<Rightarrow> []
               | Some extra \<Rightarrow> if length extra > 0 then extra else []))"

subsection \<open>Error detection and output parsing\<close>

text \<open>
  The match of \<open>/error:\s*(.+?)(?:\n|$)/i\<close>, first capture. \<open>capture_line r\<close> is the rest
  of the pattern at \<open>r\<close>: the lazy \<open>.+?\<close> takes characters that are not line terminators
  until a line feed or the end follows, so it takes all of them up to the first line
  terminator, and fails when there is none to take or when a carriage return stops it.
  \<open>skip_whitespace k r\<close> is the greedy \<open>\s*\<close>: it gives up white space one character at a
  time, from \<open>k\<close> down to none. \<open>regex_error\<close> tries each position from the left.
\<close>

definition capture_line :: "string \<Rightarrow> string option" where
  "capture_line r =
     (let taken = takeWhile (\<lambda>c. \<not> isLineTerminator c) r;
          after = dropWhile (\<lambda>c. \<not> isLineTerminator c) r
      in if taken \<noteq> [] \<and> (after = [] \<or> hd after = LF) then Some taken else None)"

fun skip_whitespace :: "nat \<Rightarrow> string \<Rightarrow> string option" where
  "skip_whitespace 0 r = capture_line r"
| "skip_whitespace (Suc k) r =
     (case capture_line (drop (Suc k) r) of
        Some m \<Rightarrow> Some m
      | None \<Rightarrow> skip_whitespace k r)"

definition match_error_at :: "string \<Rightarrow> string option" where
  "match_error_at s =
     (if startsWith (toLowerCase s) ''error:''
      then (let r = drop 6 s in skip_whitespace (length (takeWhile isWhiteSpace r)) r)
      else None)"

fun regex_error :: "string \<Rightarrow> string option" where
  "regex_error [] = None"
| "regex_error (c # cs) =
     (case match_error_at (c # cs) of
        Some m \<Rightarrow> Some m
      | None \<Rightarrow> regex_error cs)"

definition checkCopilotErrors :: "string \<Rightarrow> string option" where
  "checkCopilotErrors output =
     (let lower = toLowerCase output;
          trimmed = trim output
      in if includes_str lower ''no authentication'' \<or> includes_str lower ''not authenticated''
         then Some ''GitHub Copilot CLI is not authenticated. Run 'copilot' and use '/login' to authenticate, or set COPILOT_GITHUB_TOKEN environment variable.''
         else if includes_str lower ''rate limit'' \<or> includes_str lower ''too many requests''
         then Some ''GitHub Copilot rate limit exceeded. Please wait and try again.''
         else if includes_str lower ''network error'' \<or> includes_str lower ''connection refused''
         then Some ''Network error connecting to GitHub Copilot. Check your internet connection.''
         else if startsWith (toLowerCase trimmed) ''error:'' \<or> includes_str lower (LF # ''error:'')
         then (case regex_error output of
                 Some m \<Rightarrow> Some (trim m)
               | None \<Rightarrow> Some ''GitHub Copilot CLI returned an error'')
         else None)"

text \<open>
  \<open>parseOutput\<close>. The prompt glyph of the second \<open>startsWith\<close> is not a string of the
  code units above, so it is a parameter.
\<close>

definition parseOutput :: "string \<Rightarrow> string \<Rightarrow> string" where
  "parseOutput glyph output =
     (let lines = filter (\<lambda>l. l \<noteq> []) (split_lines output);
          meaningfulLines =
            filter (\<lambda>line. let trimmed = trim line
                            in trimmed \<noteq> [] \<and> \<not> startsWith trimmed ''?'' \<and>
                               \<not> startsWith trimmed glyph \<and>
                               \<not> includes_str trimmed ''Thinking...'' \<and>
                               \<not> includes_str trimmed ''Working on it...'') lines;
          joined = join [LF] meaningfulLines
      in if joined \<noteq> [] then joined else ''Task completed'')"

subsection \<open>What the adapter imports\<close>

record ExecResult =
  stdout :: string
  stderr :: string
  exitCode :: int

text \<open>
  Modelled from the spec: engines/base.ts, from which the adapter imports \<open>execCommand\<close>,
  \<open>execCommandStreaming\<close>, \<open>checkForErrors\<close>, \<open>detectStepFromOutput\<close> and
  \<open>formatCommandError\<close>, is not among the sources. Of the subprocess the specification says
  that it is spawned in the working directory, that its standard output and standard error
  are captured, in streaming mode line by line, and that it ends with an exit code. So
  \<open>execCommand\<close> is a function from the command, its arguments and the working directory to
  the captured \<open>ExecResult\<close>, and \<open>streamed\<close> one to the lines the process prints and its
  exit code. \<open>checkForErrors\<close> (the structured error payload found in an output, if any) and
  \<open>detectStepFromOutput\<close> (the step a line stands for, if any) are functions of their
  argument. \<open>elapsedMs\<close> is the difference of the two readings of the clock,
  \<open>promptGlyph\<close> the glyph of \<open>parseOutput\<close>, \<open>isWindows\<close> the platform test.
\<close>

record Env =
  isWindows :: bool
  promptGlyph :: string
  elapsedMs :: int
  execCommand :: "string \<Rightarrow> string list \<Rightarrow> string \<Rightarrow> ExecResult"
  streamed :: "string \<Rightarrow> string list \<Rightarrow> string \<Rightarrow> string list \<times> int"
  checkForErrors :: "string \<Rightarrow> string option"
  detectStepFromOutput :: "string \<Rightarrow> string option"

text \<open>
  Modelled from the spec: \<open>formatCommandError\<close> of engines/base.ts is missing; it
  formats a generic "command failed with code N" message that includes_str the captured
  output.
\<close>

definition formatCommandError :: "int \<Rightarrow> string \<Rightarrow> string" where
  "formatCommandError code output =
     ''Command failed with code '' @ int_to_string code @ '': '' @ output"

text \<open>
  Modelled from the spec: \<open>execCommandStreaming\<close> of engines/base.ts is missing; it hands
  each line of the output to the callback, in output order, and resolves with the exit
  code once the process has ended. \<open>'st\<close> is what the callback writes to.
\<close>

definition execCommandStreaming ::
  "Env \<Rightarrow> string \<Rightarrow> string list \<Rightarrow> string \<Rightarrow> (string \<Rightarrow> 'st \<Rightarrow> 'st) \<Rightarrow> 'st \<Rightarrow> int \<times> 'st" where
  "execCommandStreaming env cmd args workDir onLine st =
     (case streamed env cmd args workDir of
        (lines, code) \<Rightarrow> (code, fold onLine lines st))"

subsection \<open>execute and executeStreaming\<close>

record AIResult =
  success :: bool
  response :: string
  inputTokens :: nat
  outputTokens :: nat
  cost :: "string option"
  error :: "string option"

definition cliCommand :: string where
  "cliCommand = ''copilot''"

definition execute :: "Env \<Rightarrow> string \<Rightarrow> string \<Rightarrow> EngineOptions option \<Rightarrow> AIResult" where
  "execute env prompt workDir options =
     (let args = buildArgs (isWindows env) prompt options;
          res = execCommand env cliCommand args workDir;
          durationMs = elapsedMs env;
          output = stdout res @ stderr res;
          jsonError = checkForErrors env output
      in if truthy jsonError
         then \<lparr> success = False, response = [], inputTokens = 0, outputTokens = 0,
                cost = None, error = jsonError \<rparr>
         else (let copilotError = checkCopilotErrors output
               in if truthy copilotError
                  then \<lparr> success = False, response = [], inputTokens = 0, outputTokens = 0,
                         cost = None, error = copilotError \<rparr>
                  else (let response = parseOutput (promptGlyph env) output
                        in if exitCode res \<noteq> 0
                           then \<lparr> success = False, response = response, inputTokens = 0,
                                  outputTokens = 0, cost = None,
                                  error = Some (formatCommandError (exitCode res) output) \<rparr>
                           else \<lparr> success = True, response = response, inputTokens = 0,
                                  outputTokens = 0,
                                  cost = (if durationMs > 0
                                          then Some (''duration:'' @ int_to_string durationMs)
                                          else None),
                                  error = None \<rparr>)))"

text \<open>
  What the caller of \<open>executeStreaming\<close> observes, in order: each call of its
  \<open>onProgress\<close> callback and the result the call resolves with.
\<close>

datatype event = Progress string | Returned AIResult

text \<open>
  The line callback of \<open>executeStreaming\<close>. It writes to the local \<open>outputLines\<close> and,
  through \<open>onProgress\<close>, to what the caller observes.
\<close>

definition onLine :: "Env \<Rightarrow> string \<Rightarrow> string list \<times> event list \<Rightarrow> string list \<times> event list" where
  "onLine env line st =
     (case st of
        (outputLines, seen) \<Rightarrow>
          (case detectStepFromOutput env line of
             None \<Rightarrow> (outputLines @ [line], seen)
           | Some step \<Rightarrow>
               if step \<noteq> [] then (outputLines @ [line], seen @ [Progress step])
               else (outputLines @ [line], seen)))"

definition executeStreaming :: "Env \<Rightarrow> string \<Rightarrow> string \<Rightarrow> EngineOptions option \<Rightarrow> event list" where
  "executeStreaming env prompt workDir options =
     (let args = buildArgs (isWindows env) prompt options
      in case execCommandStreaming env cliCommand args workDir (onLine env) ([], []) of
           (code, (outputLines, seen)) \<Rightarrow>
             (let durationMs = elapsedMs env;
                  output = join [LF] outputLines;
                  jsonError = checkForErrors env output
              in if truthy jsonError
                 then seen @ [Returned \<lparr> success = False, response = [], inputTokens = 0,
                                        outputTokens = 0, cost = None, error = jsonError \<rparr>]
                 else (let copilotError = checkCopilotErrors output
                       in if truthy copilotError
                          then seen @ [Returned \<lparr> success = False, response = [], inputTokens = 0,
                                                 outputTokens = 0, cost = None,
                                                 error = copilotError \<rparr>]
                          else (let response = parseOutput (promptGlyph env) output
                                in if code \<noteq> 0
                                   then seen @ [Returned \<lparr> success = False, response = response,
                                                          inputTokens = 0, outputTokens = 0,
                                                          cost = None,
                                                          error = Some (formatCommandError code output) \<rparr>]
                                   else seen @ [Returned \<lparr> success = True, response = response,
                                                          inputTokens = 0, outputTokens = 0,
                                                          cost = (if durationMs > 0
                                                                  then Some (''duration:'' @ int_to_string durationMs)
                                                                  else None),
                                                          error = None \<rparr>]))))"

subsection \<open>A subprocess to run the model on\<close>

text \<open>
  An environment for concrete runs: the process prints \<open>out\<close> on standard output, the
  lines \<open>ls\<close> when streamed, and exits with \<open>code\<close>; no structured error is ever found and a
  line that starts with a capital letter \<open>R\<close>, \<open>I\<close> or \<open>T\<close> stands for the step
  \<open>reading\<close>, \<open>implementing\<close> or \<open>testing\<close>.
\<close>

definition exampleEnv :: "string \<Rightarrow> string list \<Rightarrow> int \<Rightarrow> Env" where
  "exampleEnv out ls code =
     \<lparr> isWindows = False, promptGlyph = ''>'', elapsedMs = 5,
       execCommand = (\<lambda>cmd args wd. \<lparr> stdout = out, stderr = [], exitCode = code \<rparr>),
       streamed = (\<lambda>cmd args wd. (ls, code)),
       checkForErrors = (\<lambda>output. None),
       detectStepFromOutput =
         (\<lambda>line. if startsWith line ''R'' then Some ''reading''
                  else if startsWith line ''I'' then Some ''implementing''
                  else if startsWith line ''T'' then Some ''testing''
                  else None) \<rparr>"

definition rate_limited_output :: string where
  "rate_limited_output = ''rate limit'' @ [LF] @ ''Error: disk full'' @ [LF]"

definition disk_full_output :: string where
  "disk_full_output = ''Error: disk full'' @ [LF]"

definition not_authenticated_output :: string where
  "not_authenticated_output = ''Not Authenticated'' @ [LF] @ ''Error: disk full'' @ [LF]"

definition too_many_requests_output :: string where
  "too_many_requests_output = ''Too many requests'' @ [LF] @ ''Error: disk full'' @ [LF]"

definition connection_refused_output :: string where
  "connection_refused_output = ''Error: disk full'' @ [LF] @ ''Connection refused'' @ [LF]"

definition multi_line_prompt :: string where
  "multi_line_prompt = ''fix  a&b'' @ [CR, LF, LF] @ '' now ''"

definition scenario_lines :: "string list" where
  "scenario_lines = [''Reading code...'', ''Implementing feature'', ''Tests passed'']"

text \<open>No two neighbours are both spaces.\<close>

abbreviation no_two_spaces :: "char \<Rightarrow> char \<Rightarrow> bool" where
  "no_two_spaces a b \<equiv> \<not> (a = SP \<and> b = SP)"

section \<open>Properties of the cached task source\<close>

lemmas run_defs =
  fresh_def freshYaml_def new_CachedTaskSource_def memSource_def yamlSource_def taskA_def taskB_def
  markComplete_def scheduleFlush_def set_add_def getAllTasks_def getTasksInGroup_def
  getParallelGroup_def call_inner_def not_pending_def flush_def flushSync_def hasPendingWrites_def
  exitHandler_def Let_def

lemma call_inner_fields:
  "call_inner c m s = (r, s1) \<Longrightarrow>
     inner s1 = inner s \<and> cachedTasks s1 = cachedTasks s \<and>
     pendingCompletions s1 = pendingCompletions s \<and> flushTimer s1 = flushTimer s \<and>
     flushIntervalMs s1 = flushIntervalMs s \<and> isShuttingDown s1 = isShuttingDown s \<and>
     innerCalls s1 = innerCalls s @ [c]"
  by (auto simp: call_inner_def split: prod.splits)

lemma getAllTasks_result:
  assumes "getAllTasks s = (Inr ts, s1)"
  shows "pendingCompletions s1 = pendingCompletions s
       \<and> (\<exists>cache. cachedTasks s1 = Some cache \<and> ts = filter (not_pending s1) cache)"
  using assms
  by (auto simp: getAllTasks_def Let_def not_pending_def split: option.splits prod.splits sum.splits
           dest!: call_inner_fields)

lemma getTasksInGroup_result:
  assumes "getTasksInGroup g s = (Inr ts, s1)"
  shows "pendingCompletions s1 = pendingCompletions s \<and> (\<forall>t \<in> set ts. task_id t \<notin> set (pendingCompletions s1))"
  using assms
  by (auto simp: getTasksInGroup_def Let_def not_pending_def split: option.splits prod.splits sum.splits
           dest!: call_inner_fields)

text \<open>
  C1. Whatever the state of the cached source, a task that \<open>getAllTasks\<close> or
  \<open>getTasksInGroup\<close> returns has an identifier that is not in the pending-completion set,
  and neither read changes that set. The state is arbitrary, so this holds after any
  sequence of \<open>markComplete\<close>, \<open>flush\<close> and reads, flushed or not.
\<close>

theorem C1_pending_filtered:
  "(getAllTasks s = (Inr ts, s1) \<longrightarrow>
      pendingCompletions s1 = pendingCompletions s \<and>
      (\<forall>t \<in> set ts. task_id t \<notin> set (pendingCompletions s))) \<and>
   (getTasksInGroup g s = (Inr ts', s2) \<longrightarrow>
      pendingCompletions s2 = pendingCompletions s \<and>
      (\<forall>t \<in> set ts'. task_id t \<notin> set (pendingCompletions s)))"
  using getAllTasks_result[of s ts s1] getTasksInGroup_result[of g s ts' s2]
  by (auto simp: not_pending_def)

theorem C1_pending_filtered_witness:
  "fst (getAllTasks (markComplete ''a'' freshYaml)) = Inr [taskB] \<and>
   fst (getTasksInGroup 1 (markComplete ''a'' freshYaml)) = Inr [taskB] \<and>
   pendingCompletions (markComplete ''a'' freshYaml) = [''a''] \<and>
   task_id taskB \<notin> set (pendingCompletions (markComplete ''a'' freshYaml))"
proof -
  let ?s = "markComplete ''a'' freshYaml"
  have a: "fst (getAllTasks ?s) = Inr [taskB]" by (simp add: run_defs)
  have g: "fst (getTasksInGroup 1 ?s) = Inr [taskB]" by (simp add: run_defs)
  have p: "pendingCompletions ?s = [''a'']" by (simp add: run_defs)
  have a': "getAllTasks ?s = (Inr [taskB], snd (getAllTasks ?s))"
    using a by (metis prod.collapse)
  have g': "getTasksInGroup 1 ?s = (Inr [taskB], snd (getTasksInGroup 1 ?s))"
    using g by (metis prod.collapse)
  from C1_pending_filtered[of ?s "[taskB]" "snd (getAllTasks ?s)" 1 "[taskB]" "snd (getTasksInGroup 1 ?s)"]
    a' g' a g p
  show ?thesis by simp
qed

lemma flush_loop_fields:
  "flush_loop ids s = (r, s1) \<Longrightarrow>
     inner s1 = inner s \<and> cachedTasks s1 = cachedTasks s \<and>
     pendingCompletions s1 = pendingCompletions s \<and> flushTimer s1 = flushTimer s \<and>
     flushIntervalMs s1 = flushIntervalMs s \<and> isShuttingDown s1 = isShuttingDown s"
proof (induction ids arbitrary: s)
  case Nil then show ?case by simp
next
  case (Cons i rest)
  then show ?case
    by (auto split: prod.splits sum.splits dest!: call_inner_fields)
qed

lemma flush_loop_ok_calls:
  "flush_loop ids s = (Inr u, s1) \<Longrightarrow> innerCalls s1 = innerCalls s @ map CallMarkComplete ids"
proof (induction ids arbitrary: s)
  case Nil then show ?case by simp
next
  case (Cons i rest)
  then show ?case
    by (auto split: prod.splits sum.splits dest!: call_inner_fields)
qed

lemma flush_loop_fail_at:
  "flush_loop ids s = (Inl e, s1) \<Longrightarrow>
     \<exists>k < length ids. \<exists>sk.
        flush_loop (take k ids) s = (Inr (), sk) \<and>
        fst (src_markComplete (inner s) (ids ! k) (innerState sk)) = Inl e \<and>
        innerCalls s1 = innerCalls s @ map CallMarkComplete (take (Suc k) ids)"
proof (induction ids arbitrary: s)
  case Nil then show ?case by simp
next
  case (Cons i rest)
  obtain r s' where c: "call_inner (CallMarkComplete i) (src_markComplete (inner s) i) s = (r, s')"
    by (cases "call_inner (CallMarkComplete i) (src_markComplete (inner s) i) s")
  note f = call_inner_fields[OF c]
  show ?case
  proof (cases r)
    case (Inl e')
    with Cons.prems c have "s1 = s'" "e' = e" by simp_all
    with f c Inl have "flush_loop (take 0 (i # rest)) s = (Inr (), s)
        \<and> fst (src_markComplete (inner s) ((i # rest) ! 0) (innerState s)) = Inl e
        \<and> innerCalls s1 = innerCalls s @ map CallMarkComplete (take (Suc 0) (i # rest))"
      by (auto simp: call_inner_def split: prod.splits)
    then show ?thesis by blast
  next
    case (Inr u)
    with Cons.prems c have "flush_loop rest s' = (Inl e, s1)" by simp
    from Cons.IH[OF this] obtain k sk where k: "k < length rest"
      "flush_loop (take k rest) s' = (Inr (), sk)"
      "fst (src_markComplete (inner s') (rest ! k) (innerState sk)) = Inl e"
      "innerCalls s1 = innerCalls s' @ map CallMarkComplete (take (Suc k) rest)" by blast
    with f c Inr have "flush_loop (take (Suc k) (i # rest)) s = (Inr (), sk)
        \<and> fst (src_markComplete (inner s) ((i # rest) ! Suc k) (innerState sk)) = Inl e
        \<and> innerCalls s1 = innerCalls s @ map CallMarkComplete (take (Suc (Suc k)) (i # rest))"
      by simp
    moreover have "Suc k < length (i # rest)" using k by simp
    ultimately show ?thesis by blast
  qed
qed

lemma flush_loop_fail_intro:
  "k < length ids \<Longrightarrow> flush_loop (take k ids) s = (Inr (), sk) \<Longrightarrow>
   fst (src_markComplete (inner s) (ids ! k) (innerState sk)) = Inl e \<Longrightarrow>
   fst (flush_loop ids s) = Inl e"
proof (induction ids arbitrary: s k)
  case Nil then show ?case by simp
next
  case (Cons i rest)
  obtain r s' where c: "call_inner (CallMarkComplete i) (src_markComplete (inner s) i) s = (r, s')"
    by (cases "call_inner (CallMarkComplete i) (src_markComplete (inner s) i) s")
  note f = call_inner_fields[OF c]
  show ?case
  proof (cases k)
    case 0
    with Cons.prems have "sk = s" "fst (src_markComplete (inner s) i (innerState s)) = Inl e" by simp_all
    then show ?thesis by (auto simp: call_inner_def split: prod.splits)
  next
    case (Suc j)
    with Cons.prems c obtain u where r: "r = Inr u" and l: "flush_loop (take j rest) s' = (Inr (), sk)"
      by (cases r) auto
    have "fst (flush_loop rest s') = Inl e"
      using Cons.IH[of j s'] Cons.prems Suc l f by simp
    with c r show ?thesis by simp
  qed
qed

lemma flush_unfold:
  "flush s =
     (if pendingCompletions s = [] then (Inr (), s\<lparr> flushTimer := False \<rparr>)
      else (case flush_loop (pendingCompletions s) (s\<lparr> flushTimer := False \<rparr>) of
              (Inl e, s2) \<Rightarrow> (Inl e, s2)
            | (Inr u, s2) \<Rightarrow> (Inr (), s2\<lparr> pendingCompletions := [], cachedTasks := None \<rparr>)))"
proof (cases "flushTimer s")
  case True
  then show ?thesis by (simp add: flush_def)
next
  case False
  then have e: "s\<lparr> flushTimer := False \<rparr> = s" by simp
  show ?thesis unfolding e using False by (simp add: flush_def)
qed

text \<open>
  C3. In a normal \<open>flush\<close>: when the writes of the first \<open>k\<close> pending identifiers
  succeed and the write of the next one is rejected with \<open>e\<close>, \<open>flush\<close> raises \<open>e\<close>.
  Whenever \<open>flush\<close> raises, the wrapped source has been called for an initial part of
  the pending identifiers only, up to the one whose write failed and for none after it; the
  pending-completion set is as it was, so it still holds every identifier that has not been
  written, and the cache is not invalidated.
\<close>

theorem C3_flush_failure_keeps_pending:
  "(k < length (pendingCompletions s) \<and>
    flush_loop (take k (pendingCompletions s)) (s\<lparr> flushTimer := False \<rparr>) = (Inr (), sk) \<and>
    fst (src_markComplete (inner s) (pendingCompletions s ! k) (innerState sk)) = Inl e
      \<longrightarrow> fst (flush s) = Inl e) \<and>
   (flush s = (Inl e, s1) \<longrightarrow>
      pendingCompletions s1 = pendingCompletions s \<and> hasPendingWrites s1 \<and>
      cachedTasks s1 = cachedTasks s \<and>
      (\<exists>j < length (pendingCompletions s). \<exists>sj.
          flush_loop (take j (pendingCompletions s)) (s\<lparr> flushTimer := False \<rparr>) = (Inr (), sj) \<and>
          fst (src_markComplete (inner s) (pendingCompletions s ! j) (innerState sj)) = Inl e \<and>
          innerCalls s1 = innerCalls s @ map CallMarkComplete (take (Suc j) (pendingCompletions s))))"
proof (intro conjI impI)
  let ?s0 = "s\<lparr> flushTimer := False \<rparr>"
  {
    assume a: "k < length (pendingCompletions s) \<and>
      flush_loop (take k (pendingCompletions s)) ?s0 = (Inr (), sk) \<and>
      fst (src_markComplete (inner s) (pendingCompletions s ! k) (innerState sk)) = Inl e"
    then have "fst (flush_loop (pendingCompletions ?s0) ?s0) = Inl e"
      using flush_loop_fail_intro[of k "pendingCompletions ?s0" ?s0 sk e] by simp
    with a show "fst (flush s) = Inl e"
      by (auto simp: flush_unfold split: prod.splits sum.splits)
  }
  assume f: "flush s = (Inl e, s1)"
  then have ne: "pendingCompletions s \<noteq> []" and l: "flush_loop (pendingCompletions ?s0) ?s0 = (Inl e, s1)"
    by (auto simp: flush_unfold split: prod.splits sum.splits if_splits)
  from flush_loop_fields[OF l] show p: "pendingCompletions s1 = pendingCompletions s" by simp
  with ne show "hasPendingWrites s1" by (simp add: hasPendingWrites_def)
  from flush_loop_fields[OF l] show "cachedTasks s1 = cachedTasks s" by simp
  from flush_loop_fail_at[OF l]
  show "\<exists>j < length (pendingCompletions s). \<exists>sj.
          flush_loop (take j (pendingCompletions s)) ?s0 = (Inr (), sj) \<and>
          fst (src_markComplete (inner s) (pendingCompletions s ! j) (innerState sj)) = Inl e \<and>
          innerCalls s1 = innerCalls s @ map CallMarkComplete (take (Suc j) (pendingCompletions s))"
    by simp
qed

theorem C3_flush_failure_keeps_pending_witness:
  "flush_loop (take 1 (pendingCompletions three_pending)) (three_pending\<lparr> flushTimer := False \<rparr>)
     = (Inr (), snd (flush_loop [''a''] (three_pending\<lparr> flushTimer := False \<rparr>))) \<and>
   fst (flush three_pending) = Inl (Error ''write failed'') \<and>
   pendingCompletions (snd (flush three_pending)) = [''a'', ''b'', ''c''] \<and>
   hasPendingWrites (snd (flush three_pending)) \<and>
   innerCalls (snd (flush three_pending)) = [CallMarkComplete ''a'', CallMarkComplete ''b'']"
proof -
  let ?e = "Error ''write failed''"
  let ?sk = "snd (flush_loop [''a''] (three_pending\<lparr> flushTimer := False \<rparr>))"
  have p: "pendingCompletions three_pending = [''a'', ''b'', ''c'']"
    by (simp add: three_pending_def run_defs)
  have k: "(1::nat) < length (pendingCompletions three_pending)" by (simp add: p)
  have l: "flush_loop (take 1 (pendingCompletions three_pending)) (three_pending\<lparr> flushTimer := False \<rparr>)
             = (Inr (), ?sk)"
    by (simp add: three_pending_def run_defs)
  have w: "fst (src_markComplete (inner three_pending) (pendingCompletions three_pending ! 1)
             (innerState ?sk)) = Inl ?e"
    by (simp add: three_pending_def run_defs)
  have r: "fst (flush three_pending) = Inl ?e" by (simp add: three_pending_def run_defs)
  have c: "innerCalls (snd (flush three_pending)) = [CallMarkComplete ''a'', CallMarkComplete ''b'']"
    by (simp add: three_pending_def run_defs)
  have f: "flush three_pending = (Inl ?e, snd (flush three_pending))"
    using r by (metis prod.collapse)
  from C3_flush_failure_keeps_pending[of 1 three_pending ?sk ?e "snd (flush three_pending)"]
    k l w f p c r
  show ?thesis by simp
qed

text \<open>
  Resumed with nothing in between, a flush that has passed the first \<open>position\<close> entries
  does what the loop of \<open>flush\<close> does on the entries that remain; so the flush that runs
  alone, step by step, is \<open>flush\<close>.
\<close>

declare drain.simps [simp del]

lemma drain_flush_loop:
  "position t \<le> length (pendingCompletions s) \<Longrightarrow>
   drain t s =
     (case awaited t of
        Inl e \<Rightarrow> (Inl e, s)
      | Inr u \<Rightarrow>
          (case flush_loop (drop (position t) (pendingCompletions s)) s of
             (Inl e, s2) \<Rightarrow> (Inl e, s2)
           | (Inr u, s2) \<Rightarrow> (Inr (), s2\<lparr> pendingCompletions := [], cachedTasks := None \<rparr>)))"
proof (induction "length (pendingCompletions s) - position t" arbitrary: t s)
  case 0
  then have d: "drop (position t) (pendingCompletions s) = []" by simp
  show ?case
    using 0 by (cases "awaited t")
      (simp_all add: drain.simps[of t s] flush_resume_def flush_advance_def d)
next
  case (Suc n)
  let ?p = "pendingCompletions s"
  let ?i = "position t"
  from Suc.hyps(2) have lt: "?i < length ?p" by simp
  then have d: "drop ?i ?p = ?p ! ?i # drop (Suc ?i) ?p" by (simp add: Cons_nth_drop_Suc)
  show ?case
  proof (cases "awaited t")
    case (Inl e)
    then show ?thesis by (simp add: drain.simps[of t s] flush_resume_def)
  next
    case (Inr u)
    obtain r s1 where c: "call_inner (CallMarkComplete (?p ! ?i)) (src_markComplete (inner s) (?p ! ?i)) s = (r, s1)"
      by (cases "call_inner (CallMarkComplete (?p ! ?i)) (src_markComplete (inner s) (?p ! ?i)) s")
    note f = call_inner_fields[OF c]
    let ?t1 = "\<lparr> position = Suc ?i, awaited = r \<rparr>"
    have st: "drain t s = drain ?t1 s1"
      using Inr lt c by (simp add: drain.simps[of t s] flush_resume_def flush_advance_def)
    have m: "n = length (pendingCompletions s1) - position ?t1" using Suc.hyps(2) f by simp
    have le: "position ?t1 \<le> length (pendingCompletions s1)" using lt f by simp
    from Suc.hyps(1)[OF m le] f
    have ih: "drain ?t1 s1 =
      (case r of
         Inl e \<Rightarrow> (Inl e, s1)
       | Inr u \<Rightarrow>
           (case flush_loop (drop (Suc ?i) ?p) s1 of
              (Inl e, s2) \<Rightarrow> (Inl e, s2)
            | (Inr u, s2) \<Rightarrow> (Inr (), s2\<lparr> pendingCompletions := [], cachedTasks := None \<rparr>)))"
      by (cases r) simp_all
    show ?thesis
      unfolding st ih using Inr c by (cases r) (simp_all add: d)
  qed
qed

lemma flush_alone_eq: "flush_alone s = flush s"
proof (cases "pendingCompletions s = []")
  case True
  then show ?thesis by (simp add: flush_alone_def flush_begin_def flush_def)
next
  case False
  let ?s0 = "s\<lparr> flushTimer := False \<rparr>"
  let ?p = "pendingCompletions s"
  have s0: "(if flushTimer s then ?s0 else s) = ?s0" by simp
  from False have d: "?p = ?p ! 0 # drop (Suc 0) ?p"
    by (cases ?p) simp_all
  obtain r s1 where c: "call_inner (CallMarkComplete (?p ! 0)) (src_markComplete (inner s) (?p ! 0)) ?s0 = (r, s1)"
    by (cases "call_inner (CallMarkComplete (?p ! 0)) (src_markComplete (inner s) (?p ! 0)) ?s0")
  note f = call_inner_fields[OF c]
  let ?t1 = "\<lparr> position = Suc 0, awaited = r \<rparr>"
  have b: "flush_begin s = (Awaiting ?t1, s1)"
    using False c unfolding flush_begin_def s0 Let_def by (simp add: flush_advance_def)
  have le: "position ?t1 \<le> length (pendingCompletions s1)" using False f by (cases ?p) simp_all
  have dr: "drain ?t1 s1 =
      (case r of
         Inl e \<Rightarrow> (Inl e, s1)
       | Inr u \<Rightarrow>
           (case flush_loop (drop (Suc 0) ?p) s1 of
              (Inl e, s2) \<Rightarrow> (Inl e, s2)
            | (Inr u, s2) \<Rightarrow> (Inr (), s2\<lparr> pendingCompletions := [], cachedTasks := None \<rparr>)))"
    using drain_flush_loop[OF le] f by (cases r) simp_all
  have fl: "flush_loop ?p ?s0 =
      (case r of Inl e \<Rightarrow> (Inl e, s1) | Inr u \<Rightarrow> flush_loop (drop (Suc 0) ?p) s1)"
    using c by (subst d) (cases r; simp)
  show ?thesis
    unfolding flush_alone_def b flush_unfold using False dr fl by (cases r) simp_all
qed

lemmas step_defs =
  new_Process_def call_markComplete_def call_flush_def timerFired_def resume_flush_def
  flush_begin_def flush_resume_def flush_advance_def

lemma set_add_set: "set (set_add x xs) = insert x (set xs)"
  by (auto simp: set_add_def)

lemma set_add_distinct: "distinct xs \<Longrightarrow> distinct (set_add x xs)"
  by (simp add: set_add_def)

lemma markComplete_fields:
  "pendingCompletions (markComplete i s) = set_add i (pendingCompletions s) \<and>
   innerCalls (markComplete i s) = innerCalls s \<and> innerState (markComplete i s) = innerState s \<and>
   cachedTasks (markComplete i s) = cachedTasks s \<and> inner (markComplete i s) = inner s"
  by (simp add: markComplete_def scheduleFlush_def)

lemma fold_markComplete_fields:
  "set (pendingCompletions (fold markComplete ids s)) = set (pendingCompletions s) \<union> set ids \<and>
   (distinct (pendingCompletions s) \<longrightarrow> distinct (pendingCompletions (fold markComplete ids s))) \<and>
   innerCalls (fold markComplete ids s) = innerCalls s \<and>
   innerState (fold markComplete ids s) = innerState s"
proof (induction ids arbitrary: s)
  case Nil then show ?case by simp
next
  case (Cons i rest)
  show ?case
    using Cons.IH[of "markComplete i s"] markComplete_fields[of i s]
    by (auto simp: set_add_set set_add_distinct)
qed

text \<open>
  The list of the pending-completion set has no duplicates in a new instance, and no
  operation of the class introduces one: the reads and \<open>flushSync\<close> leave the list as it
  is, \<open>markComplete\<close> adds to it as to a set, \<open>flush\<close> leaves it or empties it.
\<close>

lemma getAllTasks_pending: "pendingCompletions (snd (getAllTasks s)) = pendingCompletions s"
proof (cases "cachedTasks s")
  case (Some ts)
  then show ?thesis by (simp add: getAllTasks_def)
next
  case None
  obtain r st where c: "src_getAllTasks (inner s) (innerState s) = (r, st)"
    by (cases "src_getAllTasks (inner s) (innerState s)")
  show ?thesis
    by (cases r) (simp_all add: getAllTasks_def call_inner_def None c Let_def)
qed

lemma getTasksInGroup_pending:
  "pendingCompletions (snd (getTasksInGroup g s)) = pendingCompletions s"
proof (cases "src_getTasksInGroup (inner s)")
  case None
  then show ?thesis by (simp add: getTasksInGroup_def)
next
  case (Some m)
  obtain r st where c: "m g (innerState s) = (r, st)" by (cases "m g (innerState s)")
  show ?thesis
    by (cases r) (simp_all add: getTasksInGroup_def call_inner_def Some c)
qed

lemma flush_pending:
  "pendingCompletions (snd (flush s)) = pendingCompletions s \<or> pendingCompletions (snd (flush s)) = []"
proof (cases "pendingCompletions s = []")
  case True
  then show ?thesis by (simp add: flush_unfold)
next
  case False
  obtain r s2 where l: "flush_loop (pendingCompletions s) (s\<lparr> flushTimer := False \<rparr>) = (r, s2)"
    by (cases "flush_loop (pendingCompletions s) (s\<lparr> flushTimer := False \<rparr>)")
  from flush_loop_fields[OF l] have p: "pendingCompletions s2 = pendingCompletions s" by simp
  show ?thesis
    by (cases r) (simp_all add: flush_unfold False l p)
qed

lemma distinct_pending_invariant:
  "distinct (pendingCompletions (new_CachedTaskSource src st opt))"
  "distinct (pendingCompletions s) \<Longrightarrow> distinct (pendingCompletions (markComplete i s))"
  "distinct (pendingCompletions s) \<Longrightarrow> distinct (pendingCompletions (snd (getAllTasks s)))"
  "distinct (pendingCompletions s) \<Longrightarrow> distinct (pendingCompletions (snd (getTasksInGroup g s)))"
  "distinct (pendingCompletions s) \<Longrightarrow> distinct (pendingCompletions (snd (flush s)))"
proof -
  show "distinct (pendingCompletions (new_CachedTaskSource src st opt))"
    by (simp add: new_CachedTaskSource_def)
  show "distinct (pendingCompletions s) \<Longrightarrow> distinct (pendingCompletions (markComplete i s))"
    using markComplete_fields[of i s] by (simp add: set_add_distinct)
  show "distinct (pendingCompletions s) \<Longrightarrow> distinct (pendingCompletions (snd (getAllTasks s)))"
    by (simp add: getAllTasks_pending)
  show "distinct (pendingCompletions s) \<Longrightarrow> distinct (pendingCompletions (snd (getTasksInGroup g s)))"
    by (simp add: getTasksInGroup_pending)
  show "distinct (pendingCompletions s) \<Longrightarrow> distinct (pendingCompletions (snd (flush s)))"
    using flush_pending[of s] by auto
qed

lemma count_list_distinct: "distinct xs \<Longrightarrow> count_list xs x = (if x \<in> set xs then 1 else 0)"
  by (induction xs) auto

lemma count_list_CallMarkComplete:
  "count_list (map CallMarkComplete xs) (CallMarkComplete x) = count_list xs x"
  by (induction xs) auto

text \<open>
  C2, amended. Take a non-empty sequence of \<open>markComplete\<close> calls with no flush running
  or starting among them (the debounce timer they arm does not fire), followed by one
  \<open>flush\<close> that runs from its call to its end with nothing else in between and succeeds.
  Then the wrapped source's \<open>markComplete\<close> is called once for each distinct identifier of
  the sequence (and of what was pending before), however often the identifier occurs in
  the sequence; afterwards \<open>hasPendingWrites\<close> is false and the cache is unset. The
  pending-completion set is a set: its list has no duplicates.
\<close>

theorem C2_flush_writes_each_once:
  assumes d: "distinct (pendingCompletions s)"
      and ne: "ids \<noteq> []"
      and f: "flush_alone (fold markComplete ids s) = (Inr (), s1)"
  shows "(\<exists>written. innerCalls s1 = innerCalls s @ map CallMarkComplete written \<and>
            distinct written \<and> set written = set (pendingCompletions s) \<union> set ids \<and>
            (\<forall>i \<in> set ids. count_list (map CallMarkComplete written) (CallMarkComplete i) = 1)) \<and>
         \<not> hasPendingWrites s1 \<and> cachedTasks s1 = None"
proof -
  let ?m = "fold markComplete ids s"
  let ?cleared = "?m\<lparr> flushTimer := False \<rparr>"
  note m = fold_markComplete_fields[of ids s]
  from m ne have pne: "pendingCompletions ?m \<noteq> []" by (cases ids) auto
  from f have f': "flush ?m = (Inr (), s1)" by (simp only: flush_alone_eq)
  from f' pne obtain s2 where l: "flush_loop (pendingCompletions ?cleared) ?cleared = (Inr (), s2)"
    and s1: "s1 = s2\<lparr> pendingCompletions := [], cachedTasks := None \<rparr>"
    by (auto simp: flush_unfold split: prod.splits sum.splits)
  let ?w = "pendingCompletions ?m"
  from flush_loop_ok_calls[OF l] m s1
  have c: "innerCalls s1 = innerCalls s @ map CallMarkComplete ?w" by simp
  from m d have dw: "distinct ?w" and sw: "set ?w = set (pendingCompletions s) \<union> set ids" by simp_all
  have "\<forall>i \<in> set ids. count_list (map CallMarkComplete ?w) (CallMarkComplete i) = 1"
    using dw sw by (simp add: count_list_CallMarkComplete count_list_distinct)
  with c dw sw have "\<exists>written. innerCalls s1 = innerCalls s @ map CallMarkComplete written \<and>
            distinct written \<and> set written = set (pendingCompletions s) \<union> set ids \<and>
            (\<forall>i \<in> set ids. count_list (map CallMarkComplete written) (CallMarkComplete i) = 1)"
    by blast
  moreover from s1 have "\<not> hasPendingWrites s1" "cachedTasks s1 = None"
    by (simp_all add: hasPendingWrites_def)
  ultimately show ?thesis by blast
qed

theorem C2_flush_writes_each_once_witness:
  "distinct (pendingCompletions read_once) \<and> [''a'', ''b'', ''a''] \<noteq> [] \<and>
   fst (flush_alone (fold markComplete [''a'', ''b'', ''a''] read_once)) = Inr () \<and>
   innerCalls (snd (flush_alone (fold markComplete [''a'', ''b'', ''a''] read_once)))
     = innerCalls read_once @ [CallMarkComplete ''a'', CallMarkComplete ''b''] \<and>
   \<not> hasPendingWrites (snd (flush_alone (fold markComplete [''a'', ''b'', ''a''] read_once))) \<and>
   cachedTasks (snd (flush_alone (fold markComplete [''a'', ''b'', ''a''] read_once))) = None"
proof -
  let ?ids = "[''a'', ''b'', ''a'']"
  let ?r = "flush_alone (fold markComplete ?ids read_once)"
  have d: "distinct (pendingCompletions read_once)" by (simp add: read_once_def run_defs)
  have n: "?ids \<noteq> []" by simp
  have ok: "fst ?r = Inr ()" by (simp add: flush_alone_eq read_once_def run_defs)
  have c: "innerCalls (snd ?r)
            = innerCalls read_once @ [CallMarkComplete ''a'', CallMarkComplete ''b'']"
    by (simp add: flush_alone_eq read_once_def run_defs)
  have f: "?r = (Inr (), snd ?r)" using ok by (metis prod.collapse)
  from C2_flush_writes_each_once[OF d n f] d n ok c show ?thesis by simp
qed

text \<open>
  C2 as stated fails in three ways. When the timer armed by \<open>markComplete("a")\<close> fires
  and the caller's flush starts while the timer's flush awaits its write, \<open>a\<close> is written
  twice, and both flushes succeed. When the timer's flush has settled before \<open>a\<close> is marked
  complete again, the caller's flush writes \<open>a\<close> a second time. And for the empty
  sequence, with nothing pending, \<open>flush\<close> returns at its guard and a populated cache
  stays populated.
\<close>

theorem C2_timer_and_empty_sequence_counterexample:
  "innerCalls (cached overlapped) = [CallMarkComplete ''a'', CallMarkComplete ''a''] \<and>
   outcomes overlapped = [Inr (), Inr ()] \<and> running overlapped = [] \<and>
   innerCalls (cached timer_between) = [CallMarkComplete ''a'', CallMarkComplete ''a''] \<and>
   outcomes timer_between = [Inr (), Inr ()] \<and> running timer_between = [] \<and>
   fst (flush_alone (fold markComplete [] read_once)) = Inr () \<and>
   cachedTasks (snd (flush_alone (fold markComplete [] read_once))) = Some [taskA, taskB]"
  by (simp add: overlapped_def timer_between_def step_defs flush_alone_eq read_once_def run_defs)

lemma flushSync_loop_fields:
  "inner (flushSync_loop ids s) = inner s \<and> cachedTasks (flushSync_loop ids s) = cachedTasks s \<and>
   pendingCompletions (flushSync_loop ids s) = pendingCompletions s \<and>
   flushTimer (flushSync_loop ids s) = flushTimer s \<and>
   flushIntervalMs (flushSync_loop ids s) = flushIntervalMs s \<and>
   isShuttingDown (flushSync_loop ids s) = isShuttingDown s \<and>
   innerCalls (flushSync_loop ids s) = innerCalls s @ map CallMarkComplete ids"
proof (induction ids arbitrary: s)
  case Nil then show ?case by simp
next
  case (Cons i rest)
  obtain r s' where c: "call_inner (CallMarkComplete i) (src_markComplete (inner s) i) s = (r, s')"
    by (cases "call_inner (CallMarkComplete i) (src_markComplete (inner s) i) s")
  from call_inner_fields[OF c] Cons.IH[of s'] c show ?case by simp
qed

lemma flushSync_fields:
  "inner (flushSync s) = inner s \<and> cachedTasks (flushSync s) = cachedTasks s \<and>
   pendingCompletions (flushSync s) = pendingCompletions s \<and>
   flushTimer (flushSync s) = flushTimer s \<and>
   flushIntervalMs (flushSync s) = flushIntervalMs s \<and>
   isShuttingDown (flushSync s) = True \<and>
   innerCalls (flushSync s)
     = innerCalls s @ (if isShuttingDown s then [] else map CallMarkComplete (pendingCompletions s))"
  using flushSync_loop_fields[of "pendingCompletions s" "s\<lparr> isShuttingDown := True \<rparr>"]
  by (simp add: flushSync_def Let_def)

lemma flushSync_twice: "flushSync (flushSync s) = flushSync s"
  using flushSync_fields[of s] by (simp add: flushSync_def[of "flushSync s"])

text \<open>
  C7. A second \<open>flushSync\<close> on an instance changes nothing. After any number of calls
  the wrapped source has been called once for each pending identifier, or not at all when
  the instance was already shutting down. So running the exit handler twice is running it
  once, which is what an interrupt or termination signal followed by the \<open>exit\<close> event
  does.
\<close>

theorem C7_shutdown_flush_once:
  "flushSync (flushSync s) = flushSync s \<and>
   innerCalls ((flushSync ^^ Suc n) s)
     = innerCalls s @ (if isShuttingDown s then [] else map CallMarkComplete (pendingCompletions s)) \<and>
   exitHandler (exitHandler instances) = exitHandler instances \<and>
   snd (on_SIGINT instances) = exitHandler instances \<and>
   snd (on_SIGTERM instances) = exitHandler instances"
proof -
  have it: "(flushSync ^^ Suc n) s = flushSync s"
  proof (induction n)
    case 0 show ?case by simp
  next
    case (Suc m)
    have "(flushSync ^^ Suc (Suc m)) s = flushSync ((flushSync ^^ Suc m) s)" by simp
    with Suc show ?case by (simp only: flushSync_twice)
  qed
  have ex: "exitHandler (exitHandler instances) = exitHandler instances"
    by (simp add: exitHandler_def flushSync_twice)
  show ?thesis
    using it ex flushSync_fields[of s]
    by (simp add: flushSync_twice on_SIGINT_def on_SIGTERM_def process_exit_def del: funpow.simps)
qed

theorem C7_shutdown_flush_once_witness:
  "innerCalls ((flushSync ^^ Suc 2) three_pending)
     = [CallMarkComplete ''a'', CallMarkComplete ''b'', CallMarkComplete ''c''] \<and>
   map innerCalls (snd (on_SIGINT [three_pending, fresh []]))
     = [CallMarkComplete ''a'', CallMarkComplete ''b'', CallMarkComplete ''c''] # [] # []"
proof -
  have a: "\<not> isShuttingDown three_pending" "innerCalls three_pending = []"
    "pendingCompletions three_pending = [''a'', ''b'', ''c'']"
    by (simp_all add: three_pending_def run_defs)
  have b: "map innerCalls (exitHandler [three_pending, fresh []])
     = [CallMarkComplete ''a'', CallMarkComplete ''b'', CallMarkComplete ''c''] # [] # []"
    by (simp add: three_pending_def run_defs)
  from C7_shutdown_flush_once[of three_pending 2 "[three_pending, fresh []]"] a b
  show ?thesis by (simp del: funpow.simps)
qed

text \<open>
  C10. \<open>flushSync\<close> leaves every field of the instance as it was, except the
  shutting-down flag, which it sets, and the wrapped source with the log of the calls made
  on it. The pending-completion set and the cache are unchanged, so \<open>hasPendingWrites\<close>
  answers as before.
\<close>

theorem C10_shutdown_flush_frame:
  "flushSync s = s\<lparr> innerState := innerState (flushSync s), innerCalls := innerCalls (flushSync s),
                     isShuttingDown := True \<rparr> \<and>
   pendingCompletions (flushSync s) = pendingCompletions s \<and>
   cachedTasks (flushSync s) = cachedTasks s \<and>
   hasPendingWrites (flushSync s) = hasPendingWrites s"
proof -
  from flushSync_fields[of s]
  have "flushSync s = s\<lparr> innerState := innerState (flushSync s), innerCalls := innerCalls (flushSync s),
                     isShuttingDown := True \<rparr>"
    by (cases s, cases "flushSync s") simp
  with flushSync_fields[of s] show ?thesis by (simp add: hasPendingWrites_def)
qed

theorem C10_shutdown_flush_frame_witness:
  "hasPendingWrites pending_with_cache \<and> hasPendingWrites (flushSync pending_with_cache) \<and>
   innerCalls (flushSync pending_with_cache) = [CallGetAllTasks, CallMarkComplete ''a''] \<and>
   cachedTasks (flushSync pending_with_cache) = Some [taskA, taskB] \<and>
   pendingCompletions (flushSync pending_with_cache) = [''a'']"
proof -
  have a: "hasPendingWrites pending_with_cache" "cachedTasks pending_with_cache = Some [taskA, taskB]"
    "pendingCompletions pending_with_cache = [''a'']"
    by (simp_all add: pending_with_cache_def read_once_def run_defs)
  have c: "innerCalls (flushSync pending_with_cache) = [CallGetAllTasks, CallMarkComplete ''a'']"
    by (simp add: pending_with_cache_def read_once_def run_defs)
  from C10_shutdown_flush_frame[of pending_with_cache] a c show ?thesis by simp
qed

text \<open>
  C8 as stated fails for \<open>getParallelGroup\<close>: on a wrapped source that is not a
  \<open>YamlTaskSource\<close> it returns the default 0 and raises nothing.
\<close>

theorem C8_getParallelGroup_default_counterexample:
  "src_yamlGetParallelGroup (inner (fresh [])) = None \<and>
   fst (getParallelGroup ''first'' (fresh [])) = Inr 0"
  by (simp add: run_defs)

text \<open>
  C8, amended. On a wrapped source without \<open>getTasksInGroup\<close>, \<open>getTasksInGroup\<close>
  raises the error "Inner task source does not support getTasksInGroup" and changes
  nothing. On a wrapped source that is not a \<open>YamlTaskSource\<close>, \<open>getParallelGroup\<close>
  returns 0 and changes nothing.
\<close>

theorem C8_missing_capability:
  "(src_getTasksInGroup (inner s) = None \<longrightarrow>
      getTasksInGroup g s = (Inl (Error ''Inner task source does not support getTasksInGroup''), s)) \<and>
   (src_yamlGetParallelGroup (inner s) = None \<longrightarrow> getParallelGroup ttl s = (Inr 0, s))"
  by (simp add: getTasksInGroup_def getParallelGroup_def)

theorem C8_missing_capability_witness:
  "src_getTasksInGroup (inner (fresh [])) = None \<and>
   fst (getTasksInGroup 1 (fresh [])) = Inl (Error ''Inner task source does not support getTasksInGroup'') \<and>
   src_yamlGetParallelGroup (inner (fresh [])) = None \<and>
   fst (getParallelGroup ''first'' (fresh [])) = Inr 0"
proof -
  have a: "src_getTasksInGroup (inner (fresh [])) = None"
    "src_yamlGetParallelGroup (inner (fresh [])) = None" by (simp_all add: run_defs)
  from C8_missing_capability[of "fresh []" 1 "''first''"] a show ?thesis by simp
qed

section \<open>Properties of the engine adapter\<close>

lemmas letter_defs = lower_char_def upper_letters_def lower_letters_def

lemmas engine_defs =
  execute_def executeStreaming_def execCommandStreaming_def onLine_def exampleEnv_def cliCommand_def
  buildArgs_def sanitizePrompt_def escape_cmd_def replace_all_def checkCopilotErrors_def match_error_at_def
  capture_line_def isLineTerminator_def isWhiteSpace_def trim_def toLowerCase_def startsWith_def
  lower_char_def upper_letters_def lower_letters_def parseOutput_def truthy_def
  formatCommandError_def int_to_string_def Let_def

lemma replace_all_append: "replace_all c rep (xs @ ys) = replace_all c rep xs @ replace_all c rep ys"
  by (simp add: replace_all_def)

lemma replace_all_Cons: "replace_all c rep (x # xs) = (if x = c then rep else [x]) @ replace_all c rep xs"
  by (simp add: replace_all_def)

lemma replace_all_Nil: "replace_all c rep [] = []"
  by (simp add: replace_all_def)

lemma escape_cmd_append: "escape_cmd (xs @ ys) = escape_cmd xs @ escape_cmd ys"
  by (simp add: escape_cmd_def replace_all_append)

lemma escape_cmd_single: "escape_cmd [x] = spec_escape_char x"
  by (simp add: escape_cmd_def spec_escape_char_def replace_all_Cons replace_all_Nil)

lemma escape_cmd_spec: "escape_cmd s = concat (map spec_escape_char s)"
proof (induction s)
  case Nil
  show ?case by (simp add: escape_cmd_def replace_all_Nil)
next
  case (Cons x xs)
  have "escape_cmd (x # xs) = escape_cmd [x] @ escape_cmd xs"
    using escape_cmd_append[of "[x]" xs] by simp
  with Cons show ?case by (simp add: escape_cmd_single)
qed

lemma isWhiteSpace_SP: "isWhiteSpace SP" by (simp add: isWhiteSpace_def)
lemma isWhiteSpace_LF: "isWhiteSpace LF" by (simp add: isWhiteSpace_def)

lemma collapse_hd:
  "s \<noteq> [] \<Longrightarrow> collapse_whitespace s \<noteq> [] \<and>
     hd (collapse_whitespace s) = (if isWhiteSpace (hd s) then SP else hd s)"
  by (cases s) simp_all

lemma collapse_set:
  "c \<in> set (collapse_whitespace s) \<Longrightarrow> isWhiteSpace c \<Longrightarrow> c = SP"
proof (induction s rule: collapse_whitespace.induct)
  case 1 then show ?case by simp
next
  case (2 x xs)
  then show ?case by (auto split: if_splits)
qed

lemma collapse_successively:
  "successively no_two_spaces (collapse_whitespace s)"
proof (induction s rule: collapse_whitespace.induct)
  case 1 show ?case by simp
next
  case (2 x xs)
  show ?case
  proof (cases "isWhiteSpace x")
    case True
    let ?d = "dropWhile isWhiteSpace xs"
    have ih: "successively no_two_spaces (collapse_whitespace ?d)" using 2 True by simp
    have "collapse_whitespace ?d = [] \<or> hd (collapse_whitespace ?d) \<noteq> SP"
    proof (cases "?d = []")
      case True
      then have "collapse_whitespace ?d = []" by (simp only: collapse_whitespace.simps)
      then show ?thesis by blast
    next
      case False
      then have "\<not> isWhiteSpace (hd ?d)" by (rule hd_dropWhile)
      with collapse_hd[OF False] isWhiteSpace_SP show ?thesis by auto
    qed
    with ih True show ?thesis by (auto simp: successively_Cons)
  next
    case False
    then have "x \<noteq> SP" using isWhiteSpace_SP by auto
    with 2 False show ?thesis by (auto simp: successively_Cons)
  qed
qed

lemma successively_dropWhile: "successively P xs \<Longrightarrow> successively P (dropWhile Q xs)"
proof -
  assume "successively P xs"
  then have "successively P (takeWhile Q xs @ dropWhile Q xs)" by simp
  then show ?thesis unfolding successively_append_iff by blast
qed

lemma trim_set: "set (trim s) \<subseteq> set s"
proof -
  have "set (trim s) \<subseteq> set (rev (dropWhile isWhiteSpace s))"
    unfolding trim_def using set_dropWhileD by fastforce
  also have "\<dots> \<subseteq> set s" using set_dropWhileD by fastforce
  finally show ?thesis .
qed

lemma trim_successively:
  assumes "successively no_two_spaces s"
  shows "successively no_two_spaces (trim s)"
proof -
  have sym: "(\<lambda>x y. no_two_spaces y x) = no_two_spaces" by (auto simp: fun_eq_iff)
  have "successively no_two_spaces (dropWhile isWhiteSpace s)"
    using assms by (rule successively_dropWhile)
  then have "successively no_two_spaces (rev (dropWhile isWhiteSpace s))"
    unfolding successively_rev sym .
  then have "successively no_two_spaces
               (dropWhile isWhiteSpace (rev (dropWhile isWhiteSpace s)))"
    by (rule successively_dropWhile)
  then show ?thesis unfolding trim_def successively_rev sym .
qed

lemma replace_newlines_no_LF: "LF \<notin> set (replace_newlines s)"
  by (induction s rule: replace_newlines.induct) auto

lemma collapse_no_LF: "LF \<notin> set (collapse_whitespace s)"
  using collapse_set[of LF s] isWhiteSpace_LF by auto

lemma collapse_no_CR: "CR \<notin> set (collapse_whitespace s)"
  using collapse_set[of CR s] by (auto simp: isWhiteSpace_def)

lemma spec_escape_set: "c \<in> set (spec_escape_char x) \<Longrightarrow> c = x \<or> c = CHR ''^'' \<or> c = CHR 0x22"
  by (auto simp: spec_escape_char_def split: if_splits)

lemma spec_escape_successively:
  "successively no_two_spaces s \<Longrightarrow> successively no_two_spaces (concat (map spec_escape_char s))"
proof (induction s)
  case Nil show ?case by simp
next
  case (Cons x xs)
  from Cons.prems have xs: "successively no_two_spaces xs"
    and adj: "xs = [] \<or> no_two_spaces x (hd xs)" by (auto simp: successively_Cons)
  have one: "successively no_two_spaces (spec_escape_char x)"
    by (simp add: spec_escape_char_def)
  have ne: "spec_escape_char x \<noteq> []" by (simp add: spec_escape_char_def)
  have l: "last (spec_escape_char x) = SP \<longleftrightarrow> x = SP" by (simp add: spec_escape_char_def)
  have h: "xs \<noteq> [] \<Longrightarrow> concat (map spec_escape_char xs) \<noteq> [] \<and>
             (hd (concat (map spec_escape_char xs)) = SP \<longleftrightarrow> hd xs = SP)"
    by (cases xs) (auto simp: spec_escape_char_def)
  show ?case
    using Cons.IH[OF xs] one l h adj
    by (cases "xs = []") (auto simp: successively_append_iff)
qed

text \<open>
  C5. On either platform the sanitized prompt contains no line feed, no carriage return
  and no two consecutive spaces, and it is the fourth argument handed to the subprocess. On Windows it
  is the flattened prompt with every character escaped once, as the specification words it:
  the six replacements in the order caret, ampersand, less-than, greater-than, pipe, double
  quote never escape a caret that a later replacement put in.
\<close>

theorem C5_sanitized_prompt:
  "LF \<notin> set (sanitizePrompt w prompt) \<and> CR \<notin> set (sanitizePrompt w prompt) \<and>
   (\<forall>i. Suc i < length (sanitizePrompt w prompt) \<longrightarrow>
        \<not> (sanitizePrompt w prompt ! i = SP \<and> sanitizePrompt w prompt ! Suc i = SP)) \<and>
   sanitizePrompt True prompt = concat (map spec_escape_char (sanitizePrompt False prompt)) \<and>
   buildArgs w prompt options ! 3 = sanitizePrompt w prompt"
proof -
  let ?flat = "trim (collapse_whitespace (replace_newlines prompt))"
  have flat: "sanitizePrompt False prompt = ?flat" by (simp add: sanitizePrompt_def)
  have win: "sanitizePrompt True prompt = concat (map spec_escape_char ?flat)"
    using escape_cmd_spec[of ?flat] by (simp add: sanitizePrompt_def)
  have f1: "LF \<notin> set ?flat" using trim_set collapse_no_LF by blast
  have f3: "CR \<notin> set ?flat" using trim_set collapse_no_CR by blast
  have f2: "successively no_two_spaces ?flat"
    by (rule trim_successively) (rule collapse_successively)
  have w1: "LF \<notin> set (concat (map spec_escape_char ?flat))"
    using f1 spec_escape_set by fastforce
  have w2: "successively no_two_spaces (concat (map spec_escape_char ?flat))"
    using f2 by (rule spec_escape_successively)
  have w3: "CR \<notin> set (concat (map spec_escape_char ?flat))"
    using f3 spec_escape_set by fastforce
  have a: "LF \<notin> set (sanitizePrompt w prompt)"
    using f1 w1 flat win by (cases w) simp_all
  have a': "CR \<notin> set (sanitizePrompt w prompt)"
    using f3 w3 flat win by (cases w) simp_all
  have b: "successively no_two_spaces (sanitizePrompt w prompt)"
    using f2 w2 flat win by (cases w) simp_all
  have c: "buildArgs w prompt options ! 3 = sanitizePrompt w prompt"
    by (simp add: buildArgs_def numeral_3_eq_3)
  from a a' b c win flat show ?thesis
    by (simp add: successively_conv_nth)
qed

theorem C5_sanitized_prompt_witness:
  "LF \<in> set multi_line_prompt \<and>
   sanitizePrompt False multi_line_prompt = ''fix a&b now'' \<and>
   sanitizePrompt True multi_line_prompt = ''fix a^&b now'' \<and>
   Suc 3 < length (sanitizePrompt True multi_line_prompt) \<and>
   sanitizePrompt True multi_line_prompt ! 3 = SP \<and>
   sanitizePrompt True multi_line_prompt ! Suc 3 \<noteq> SP"
proof -
  have a: "LF \<in> set multi_line_prompt" by (simp add: multi_line_prompt_def)
  have b: "sanitizePrompt False multi_line_prompt = ''fix a&b now''"
    by (simp add: multi_line_prompt_def engine_defs)
  have c: "concat (map spec_escape_char ''fix a&b now'') = ''fix a^&b now''"
    by (simp add: spec_escape_char_def)
  from C5_sanitized_prompt[of True multi_line_prompt None] a b c
  show ?thesis by simp
qed

lemma includes_str_append: "includes_str (a @ t @ b) t"
proof (induction a)
  case Nil
  have "startsWith (t @ b) t" by (simp add: startsWith_def)
  then show ?case by (cases "t @ b") auto
next
  case (Cons c a)
  then show ?case by simp
qed

lemma lower_char_LF: "lower_char c \<in> set ''error:'' \<Longrightarrow> c \<noteq> LF"
  by (auto simp: letter_defs)

lemma no_error_prefix:
  assumes ne: "pre \<noteq> []" and l: "last pre = LF"
      and n: "\<not> includes_str (toLowerCase pre) ''error:''"
  shows "\<not> startsWith (toLowerCase (pre @ rest)) ''error:''"
proof
  assume s: "startsWith (toLowerCase (pre @ rest)) ''error:''"
  have six: "length ''error:'' = 6" by simp
  from s have t: "take 6 (map lower_char pre @ map lower_char rest) = ''error:''"
    unfolding startsWith_def toLowerCase_def six by simp
  show False
  proof (cases "6 \<le> length pre")
    case True
    with t have "take 6 (map lower_char pre) = ''error:''" by simp
    then have "startsWith (toLowerCase pre) ''error:''"
      unfolding startsWith_def toLowerCase_def six .
    moreover from ne obtain c cs where "pre = c # cs" by (cases pre) auto
    ultimately have "includes_str (toLowerCase pre) ''error:''"
      by (simp add: toLowerCase_def)
    with n show False by simp
  next
    case False
    then have "take 6 (map lower_char pre @ map lower_char rest)
                = map lower_char pre @ take (6 - length pre) (map lower_char rest)" by simp
    with t have "set (map lower_char pre) \<subseteq> set ''error:''"
      by (metis set_append Un_upper1)
    moreover have "lower_char (last pre) \<in> set (map lower_char pre)" using ne by simp
    ultimately have "lower_char (last pre) \<in> set ''error:''" by blast
    with lower_char_LF l show False by blast
  qed
qed

lemma regex_error_skip:
  "pre = [] \<or> last pre = LF \<Longrightarrow> \<not> includes_str (toLowerCase pre) ''error:'' \<Longrightarrow>
   regex_error (pre @ rest) = regex_error rest"
proof (induction pre)
  case Nil show ?case by simp
next
  case (Cons c cs)
  from Cons.prems have l: "last (c # cs) = LF" by simp
  have "\<not> startsWith (toLowerCase ((c # cs) @ rest)) ''error:''"
    using no_error_prefix[of "c # cs" rest] l Cons.prems(2) by simp
  then have m: "match_error_at (c # (cs @ rest)) = None" by (simp add: match_error_at_def)
  have 1: "cs = [] \<or> last cs = LF" using l by (cases cs) auto
  have 2: "\<not> includes_str (toLowerCase cs) ''error:''"
    using Cons.prems(2) by (simp add: toLowerCase_def)
  from Cons.IH[OF 1 2] m show ?case by simp
qed

lemma regex_error_disk_full:
  "post = [] \<or> hd post = LF \<Longrightarrow> regex_error (''Error: disk full'' @ post) = Some ''disk full''"
  by (cases post)
     (auto simp: match_error_at_def startsWith_def toLowerCase_def letter_defs isWhiteSpace_def
                 capture_line_def isLineTerminator_def Let_def)

lemma trim_end_append:
  assumes "a \<noteq> []" "\<not> isWhiteSpace (last a)"
  shows "rev (dropWhile isWhiteSpace (rev (a @ b))) = a @ rev (dropWhile isWhiteSpace (rev b))"
proof -
  have h: "dropWhile isWhiteSpace (rev a) = rev a"
    using assms by (simp add: dropWhile_eq_self_iff hd_rev)
  show ?thesis
    using h by (simp add: dropWhile_append)
qed

lemma generic_check_disk_full:
  assumes "pre = [] \<or> last pre = LF"
  shows "startsWith (toLowerCase (trim (pre @ ''Error: disk full'' @ post))) ''error:'' \<or>
         includes_str (toLowerCase (pre @ ''Error: disk full'' @ post)) (LF # ''error:'')"
proof (cases "pre = []")
  case True
  have "trim (''Error: disk full'' @ post)
          = ''Error: disk full'' @ rev (dropWhile isWhiteSpace (rev post))"
    using trim_end_append[of "''Error: disk full''" post]
    by (simp add: trim_def isWhiteSpace_def)
  then show ?thesis using True
    by (simp add: startsWith_def toLowerCase_def letter_defs)
next
  case False
  with assms obtain p where p: "pre = p @ [LF]" by (metis append_butlast_last_id)
  have "toLowerCase (pre @ ''Error: disk full'' @ post)
         = toLowerCase p @ (LF # ''error:'') @ ('' disk full'' @ toLowerCase post)"
    by (simp add: p toLowerCase_def letter_defs)
  then show ?thesis using includes_str_append by metis
qed

lemma checkCopilotErrors_disk_full:
  assumes o: "output = pre @ ''Error: disk full'' @ post"
      and pre: "pre = [] \<or> last pre = LF" and post: "post = [] \<or> hd post = LF"
      and first: "\<not> includes_str (toLowerCase pre) ''error:''"
      and kw: "\<not> includes_str (toLowerCase output) ''no authentication''"
              "\<not> includes_str (toLowerCase output) ''not authenticated''"
              "\<not> includes_str (toLowerCase output) ''rate limit''"
              "\<not> includes_str (toLowerCase output) ''too many requests''"
              "\<not> includes_str (toLowerCase output) ''network error''"
              "\<not> includes_str (toLowerCase output) ''connection refused''"
  shows "checkCopilotErrors output = Some ''disk full''"
proof -
  have r: "regex_error output = Some ''disk full''"
    using regex_error_skip[OF pre first] regex_error_disk_full[OF post] o by simp
  have t: "trim ''disk full'' = ''disk full''" by (simp add: trim_def isWhiteSpace_def)
  have g: "startsWith (toLowerCase (trim output)) ''error:'' \<or>
           includes_str (toLowerCase output) (LF # ''error:'')"
    using generic_check_disk_full[OF pre] o by simp
  show ?thesis
    unfolding checkCopilotErrors_def Let_def using kw g r t by simp
qed

text \<open>
  C4. The claim that every failing run is returned with \<open>success = False\<close> and an error
  message that is not empty does not hold of the code. When the process prints \<open>Error: \<close>
  and exits with 0, the generic check of \<open>checkCopilotErrors\<close> finds the \<open>error:\<close> line,
  the expression captures the blank after the colon and \<open>trim\<close> leaves the empty string,
  which \<open>execute\<close> takes for no error: the run is returned as a success with the line as
  its response. Without the blank, no message is captured and the fallback message of the
  same branch is returned: that run is a failure.
\<close>

theorem C4_blank_error_line_is_success:
  "startsWith (toLowerCase (trim ''Error: '')) ''error:'' \<and>
   regex_error ''Error: '' = Some '' '' \<and>
   checkCopilotErrors ''Error: '' = Some [] \<and>
   success (execute (exampleEnv ''Error: '' [] 0) ''p'' ''/w'' None) \<and>
   error (execute (exampleEnv ''Error: '' [] 0) ''p'' ''/w'' None) = None \<and>
   response (execute (exampleEnv ''Error: '' [] 0) ''p'' ''/w'' None) = ''Error: '' \<and>
   checkCopilotErrors ''Error:'' = Some ''GitHub Copilot CLI returned an error'' \<and>
   success (execute (exampleEnv ''Error:'' [] 0) ''p'' ''/w'' None) = False"
  by code_simp

text \<open>
  C6 as stated fails: an output that contains the line "Error: disk full" after a line
  with the words "rate limit" is classified as a rate-limit failure, since the keyword
  checks come before the generic \<open>error:\<close> line.
\<close>

theorem C6_disk_full_line_counterexample:
  "includes_str rate_limited_output (LF # ''Error: disk full'' @ [LF]) \<and>
   error (execute (exampleEnv rate_limited_output [] 0) ''p'' ''/w'' None)
     = Some ''GitHub Copilot rate limit exceeded. Please wait and try again.''"
  by code_simp

lemma checkCopilotErrors_order:
  fixes out :: string
  defines "lower \<equiv> toLowerCase out"
  defines "auth \<equiv> includes_str lower ''no authentication'' \<or> includes_str lower ''not authenticated''"
  defines "rate \<equiv> includes_str lower ''rate limit'' \<or> includes_str lower ''too many requests''"
  defines "network \<equiv> includes_str lower ''network error'' \<or> includes_str lower ''connection refused''"
  defines "generic \<equiv> startsWith (toLowerCase (trim out)) ''error:'' \<or> includes_str lower (LF # ''error:'')"
  shows "auth \<Longrightarrow> checkCopilotErrors out = Some ''GitHub Copilot CLI is not authenticated. Run 'copilot' and use '/login' to authenticate, or set COPILOT_GITHUB_TOKEN environment variable.''"
    and "\<not> auth \<Longrightarrow> rate \<Longrightarrow> checkCopilotErrors out = Some ''GitHub Copilot rate limit exceeded. Please wait and try again.''"
    and "\<not> auth \<Longrightarrow> \<not> rate \<Longrightarrow> network \<Longrightarrow> checkCopilotErrors out = Some ''Network error connecting to GitHub Copilot. Check your internet connection.''"
    and "\<not> auth \<Longrightarrow> \<not> rate \<Longrightarrow> \<not> network \<Longrightarrow> generic \<Longrightarrow>
           checkCopilotErrors out = (case regex_error out of
                                          Some m \<Rightarrow> Some (trim m)
                                        | None \<Rightarrow> Some ''GitHub Copilot CLI returned an error'')"
    and "\<not> auth \<Longrightarrow> \<not> rate \<Longrightarrow> \<not> network \<Longrightarrow> \<not> generic \<Longrightarrow> checkCopilotErrors out = None"
  unfolding auth_def rate_def network_def generic_def lower_def checkCopilotErrors_def Let_def
  by simp_all

lemma execute_unfold:
  "execute env prompt workDir options =
     (let res = execCommand env cliCommand (buildArgs (isWindows env) prompt options) workDir;
          out = stdout res @ stderr res
      in if truthy (checkForErrors env out)
         then \<lparr> success = False, response = [], inputTokens = 0, outputTokens = 0,
                cost = None, error = checkForErrors env out \<rparr>
         else if truthy (checkCopilotErrors out)
         then \<lparr> success = False, response = [], inputTokens = 0, outputTokens = 0,
                cost = None, error = checkCopilotErrors out \<rparr>
         else if exitCode res \<noteq> 0
         then \<lparr> success = False, response = parseOutput (promptGlyph env) out, inputTokens = 0,
                outputTokens = 0, cost = None,
                error = Some (formatCommandError (exitCode res) out) \<rparr>
         else \<lparr> success = True, response = parseOutput (promptGlyph env) out, inputTokens = 0,
                outputTokens = 0,
                cost = (if elapsedMs env > 0
                        then Some (''duration:'' @ int_to_string (elapsedMs env)) else None),
                error = None \<rparr>)"
  by (simp add: execute_def Let_def)

text \<open>
  C6, amended. The error paths of \<open>execute\<close> are tried in the order structured error,
  plain-text error, exit code, and the first that applies gives the result. The plain-text
  detection tries the authentication keywords, then the rate-limit keywords, then the
  network keywords, then the generic \<open>error:\<close> line, whose message is the first capture
  of the expression, trimmed, or the fallback message; without any of them it detects
  nothing. When the captured output has no structured error and none of the keywords, and
  the line "Error: disk full" starts the output or follows a line feed, ends at a line
  feed or at the end of the output, and nothing before it contains \<open>error:\<close> in any
  letter case, then \<open>execute\<close> returns \<open>success = False\<close> with the error "disk full",
  whatever the exit code.
\<close>

theorem C6_error_priority:
  "let res = execCommand env cliCommand (buildArgs (isWindows env) prompt options) workDir;
       output = stdout res @ stderr res;
       r = execute env prompt workDir options;
       lower = toLowerCase output;
       json = truthy (checkForErrors env output);
       auth = (includes_str lower ''no authentication'' \<or> includes_str lower ''not authenticated'');
       rate = (includes_str lower ''rate limit'' \<or> includes_str lower ''too many requests'');
       network = (includes_str lower ''network error'' \<or> includes_str lower ''connection refused'');
       generic = (startsWith (toLowerCase (trim output)) ''error:'' \<or>
                  includes_str lower (LF # ''error:''))
   in (json \<longrightarrow> \<not> success r \<and> error r = checkForErrors env output) \<and>
      (\<not> json \<and> auth \<longrightarrow>
         \<not> success r \<and>
         error r = Some ''GitHub Copilot CLI is not authenticated. Run 'copilot' and use '/login' to authenticate, or set COPILOT_GITHUB_TOKEN environment variable.'') \<and>
      (\<not> json \<and> \<not> auth \<and> rate \<longrightarrow>
         \<not> success r \<and>
         error r = Some ''GitHub Copilot rate limit exceeded. Please wait and try again.'') \<and>
      (\<not> json \<and> \<not> auth \<and> \<not> rate \<and> network \<longrightarrow>
         \<not> success r \<and>
         error r = Some ''Network error connecting to GitHub Copilot. Check your internet connection.'') \<and>
      (\<not> json \<and> \<not> auth \<and> \<not> rate \<and> \<not> network \<and> generic \<longrightarrow>
         checkCopilotErrors output = (case regex_error output of
                                        Some m \<Rightarrow> Some (trim m)
                                      | None \<Rightarrow> Some ''GitHub Copilot CLI returned an error'') \<and>
         (truthy (checkCopilotErrors output) \<longrightarrow>
            \<not> success r \<and> error r = checkCopilotErrors output)) \<and>
      (\<not> json \<and> \<not> auth \<and> \<not> rate \<and> \<not> network \<and> \<not> generic \<longrightarrow>
         checkCopilotErrors output = None) \<and>
      (\<not> json \<and> \<not> truthy (checkCopilotErrors output) \<and> exitCode res \<noteq> 0 \<longrightarrow>
         \<not> success r \<and> error r = Some (formatCommandError (exitCode res) output)) \<and>
      (\<not> json \<and> \<not> truthy (checkCopilotErrors output) \<and> exitCode res = 0 \<longrightarrow>
         success r \<and> error r = None) \<and>
      (output = pre @ ''Error: disk full'' @ post \<and>
       (pre = [] \<or> last pre = LF) \<and> (post = [] \<or> hd post = LF) \<and>
       \<not> includes_str (toLowerCase pre) ''error:'' \<and>
       \<not> json \<and> \<not> auth \<and> \<not> rate \<and> \<not> network \<longrightarrow>
         \<not> success r \<and> error r = Some ''disk full'')"
proof -
  define res where "res = execCommand env cliCommand (buildArgs (isWindows env) prompt options) workDir"
  define out where "out = stdout res @ stderr res"
  define r where "r = execute env prompt workDir options"
  define json where "json = truthy (checkForErrors env out)"
  define auth where "auth = (includes_str (toLowerCase out) ''no authentication'' \<or>
                             includes_str (toLowerCase out) ''not authenticated'')"
  define rate where "rate = (includes_str (toLowerCase out) ''rate limit'' \<or>
                             includes_str (toLowerCase out) ''too many requests'')"
  define network where "network = (includes_str (toLowerCase out) ''network error'' \<or>
                                   includes_str (toLowerCase out) ''connection refused'')"
  define generic where "generic = (startsWith (toLowerCase (trim out)) ''error:'' \<or>
                                   includes_str (toLowerCase out) (LF # ''error:''))"
  note kw = auth_def rate_def network_def generic_def
  have r: "r = (if json
         then \<lparr> success = False, response = [], inputTokens = 0, outputTokens = 0,
                cost = None, error = checkForErrors env out \<rparr>
         else if truthy (checkCopilotErrors out)
         then \<lparr> success = False, response = [], inputTokens = 0, outputTokens = 0,
                cost = None, error = checkCopilotErrors out \<rparr>
         else if exitCode res \<noteq> 0
         then \<lparr> success = False, response = parseOutput (promptGlyph env) out, inputTokens = 0,
                outputTokens = 0, cost = None,
                error = Some (formatCommandError (exitCode res) out) \<rparr>
         else \<lparr> success = True, response = parseOutput (promptGlyph env) out, inputTokens = 0,
                outputTokens = 0,
                cost = (if elapsedMs env > 0
                        then Some (''duration:'' @ int_to_string (elapsedMs env)) else None),
                error = None \<rparr>)"
    by (simp add: r_def out_def res_def json_def execute_unfold Let_def)
  have det: "\<not> json \<Longrightarrow> checkCopilotErrors out = Some m \<Longrightarrow> m \<noteq> [] \<Longrightarrow>
               \<not> success r \<and> error r = Some m" for m
    by (simp add: r truthy_def)
  have p1: "json \<longrightarrow> \<not> success r \<and> error r = checkForErrors env out" by (simp add: r)
  have p2: "\<not> json \<and> auth \<longrightarrow>
         \<not> success r \<and>
         error r = Some ''GitHub Copilot CLI is not authenticated. Run 'copilot' and use '/login' to authenticate, or set COPILOT_GITHUB_TOKEN environment variable.''"
    using checkCopilotErrors_order(1)[of out] det unfolding kw by blast
  have p3: "\<not> json \<and> \<not> auth \<and> rate \<longrightarrow>
         \<not> success r \<and>
         error r = Some ''GitHub Copilot rate limit exceeded. Please wait and try again.''"
    using checkCopilotErrors_order(2)[of out] det unfolding kw by blast
  have p4: "\<not> json \<and> \<not> auth \<and> \<not> rate \<and> network \<longrightarrow>
         \<not> success r \<and>
         error r = Some ''Network error connecting to GitHub Copilot. Check your internet connection.''"
    using checkCopilotErrors_order(3)[of out] det unfolding kw by blast
  have p5: "\<not> json \<and> \<not> auth \<and> \<not> rate \<and> \<not> network \<and> generic \<longrightarrow>
         checkCopilotErrors out = (case regex_error out of
                                     Some m \<Rightarrow> Some (trim m)
                                   | None \<Rightarrow> Some ''GitHub Copilot CLI returned an error'') \<and>
         (truthy (checkCopilotErrors out) \<longrightarrow>
            \<not> success r \<and> error r = checkCopilotErrors out)"
    using checkCopilotErrors_order(4)[of out] unfolding kw by (auto simp: r)
  have p6: "\<not> json \<and> \<not> auth \<and> \<not> rate \<and> \<not> network \<and> \<not> generic \<longrightarrow>
         checkCopilotErrors out = None"
    using checkCopilotErrors_order(5)[of out] unfolding kw by blast
  have p7: "\<not> json \<and> \<not> truthy (checkCopilotErrors out) \<and> exitCode res \<noteq> 0 \<longrightarrow>
         \<not> success r \<and> error r = Some (formatCommandError (exitCode res) out)" by (simp add: r)
  have p8: "\<not> json \<and> \<not> truthy (checkCopilotErrors out) \<and> exitCode res = 0 \<longrightarrow>
         success r \<and> error r = None" by (simp add: r)
  have p9: "out = pre @ ''Error: disk full'' @ post \<and>
       (pre = [] \<or> last pre = LF) \<and> (post = [] \<or> hd post = LF) \<and>
       \<not> includes_str (toLowerCase pre) ''error:'' \<and>
       \<not> json \<and> \<not> auth \<and> \<not> rate \<and> \<not> network \<longrightarrow>
         \<not> success r \<and> error r = Some ''disk full''"
  proof
    assume a: "out = pre @ ''Error: disk full'' @ post \<and>
       (pre = [] \<or> last pre = LF) \<and> (post = [] \<or> hd post = LF) \<and>
       \<not> includes_str (toLowerCase pre) ''error:'' \<and>
       \<not> json \<and> \<not> auth \<and> \<not> rate \<and> \<not> network"
    then have c: "checkCopilotErrors out = Some ''disk full''"
      using checkCopilotErrors_disk_full[of out pre post] unfolding kw by blast
    from a have nj: "\<not> json" by blast
    from det[OF nj c] show "\<not> success r \<and> error r = Some ''disk full''" by simp
  qed
  from p1 p2 p3 p4 p5 p6 p7 p8 p9 show ?thesis
    unfolding Let_def res_def[symmetric] out_def[symmetric] r_def[symmetric] json_def[symmetric]
      auth_def[symmetric] rate_def[symmetric] network_def[symmetric] generic_def[symmetric]
    by blast
qed

theorem C6_error_priority_witness:
  "error (execute (exampleEnv disk_full_output [] 0) ''p'' ''/w'' None) = Some ''disk full'' \<and>
   \<not> success (execute (exampleEnv disk_full_output [] 0) ''p'' ''/w'' None) \<and>
   error (execute (exampleEnv disk_full_output [] 7) ''p'' ''/w'' None) = Some ''disk full'' \<and>
   error (execute ((exampleEnv disk_full_output [] 7)\<lparr> checkForErrors := (\<lambda>output. Some ''boom'') \<rparr>)
            ''p'' ''/w'' None) = Some ''boom'' \<and>
   error (execute (exampleEnv not_authenticated_output [] 0) ''p'' ''/w'' None)
     = Some ''GitHub Copilot CLI is not authenticated. Run 'copilot' and use '/login' to authenticate, or set COPILOT_GITHUB_TOKEN environment variable.'' \<and>
   error (execute (exampleEnv too_many_requests_output [] 0) ''p'' ''/w'' None)
     = Some ''GitHub Copilot rate limit exceeded. Please wait and try again.'' \<and>
   error (execute (exampleEnv connection_refused_output [] 0) ''p'' ''/w'' None)
     = Some ''Network error connecting to GitHub Copilot. Check your internet connection.'' \<and>
   error (execute (exampleEnv ''all good'' [] 3) ''p'' ''/w'' None)
     = Some ''Command failed with code 3: all good''"
proof -
  have e: "stdout (execCommand (exampleEnv out [] c) cliCommand args ''/w'')
             @ stderr (execCommand (exampleEnv out [] c) cliCommand args ''/w'') = out"
          "checkForErrors (exampleEnv out [] c) x = None"
          "exitCode (execCommand (exampleEnv out [] c) cliCommand args ''/w'') = c" for out c args x
    by (simp_all add: exampleEnv_def)
  have j: "truthy (Some ''boom'')" "\<not> truthy None" by (simp_all add: truthy_def)
  have o: "disk_full_output = [] @ ''Error: disk full'' @ [LF]" by (simp add: disk_full_output_def)
  have k: "\<not> includes_str (toLowerCase disk_full_output) ''no authentication''"
          "\<not> includes_str (toLowerCase disk_full_output) ''not authenticated''"
          "\<not> includes_str (toLowerCase disk_full_output) ''rate limit''"
          "\<not> includes_str (toLowerCase disk_full_output) ''too many requests''"
          "\<not> includes_str (toLowerCase disk_full_output) ''network error''"
          "\<not> includes_str (toLowerCase disk_full_output) ''connection refused''"
          "\<not> includes_str (toLowerCase []) ''error:''"
    by code_simp+
  have d0: "\<not> success (execute (exampleEnv disk_full_output [] 0) ''p'' ''/w'' None) \<and>
            error (execute (exampleEnv disk_full_output [] 0) ''p'' ''/w'' None) = Some ''disk full''"
    using C6_error_priority[of "exampleEnv disk_full_output [] 0" "''p''" None "''/w''" "[]" "[LF]"]
          o k by (simp add: Let_def e j)
  have d7: "error (execute (exampleEnv disk_full_output [] 7) ''p'' ''/w'' None) = Some ''disk full''"
    using C6_error_priority[of "exampleEnv disk_full_output [] 7" "''p''" None "''/w''" "[]" "[LF]"]
          o k by (simp add: Let_def e j)
  have b: "error (execute ((exampleEnv disk_full_output [] 7)\<lparr> checkForErrors := (\<lambda>output. Some ''boom'') \<rparr>)
            ''p'' ''/w'' None) = Some ''boom''"
    using C6_error_priority[of "(exampleEnv disk_full_output [] 7)\<lparr> checkForErrors := (\<lambda>output. Some ''boom'') \<rparr>"
                               "''p''" None "''/w''" "[]" "[LF]"]
    by (simp add: Let_def j)
  have ka: "includes_str (toLowerCase not_authenticated_output) ''not authenticated''"
    by code_simp
  have a: "error (execute (exampleEnv not_authenticated_output [] 0) ''p'' ''/w'' None)
     = Some ''GitHub Copilot CLI is not authenticated. Run 'copilot' and use '/login' to authenticate, or set COPILOT_GITHUB_TOKEN environment variable.''"
    using C6_error_priority[of "exampleEnv not_authenticated_output [] 0" "''p''" None "''/w''" "[]" "[LF]"]
          ka by (simp add: Let_def e j)
  have kr: "\<not> includes_str (toLowerCase too_many_requests_output) ''no authentication''"
           "\<not> includes_str (toLowerCase too_many_requests_output) ''not authenticated''"
           "includes_str (toLowerCase too_many_requests_output) ''too many requests''"
    by code_simp+
  have t: "error (execute (exampleEnv too_many_requests_output [] 0) ''p'' ''/w'' None)
     = Some ''GitHub Copilot rate limit exceeded. Please wait and try again.''"
    using C6_error_priority[of "exampleEnv too_many_requests_output [] 0" "''p''" None "''/w''" "[]" "[LF]"]
          kr by (simp add: Let_def e j)
  have kn: "\<not> includes_str (toLowerCase connection_refused_output) ''no authentication''"
           "\<not> includes_str (toLowerCase connection_refused_output) ''not authenticated''"
           "\<not> includes_str (toLowerCase connection_refused_output) ''rate limit''"
           "\<not> includes_str (toLowerCase connection_refused_output) ''too many requests''"
           "includes_str (toLowerCase connection_refused_output) ''connection refused''"
    by code_simp+
  have n: "error (execute (exampleEnv connection_refused_output [] 0) ''p'' ''/w'' None)
     = Some ''Network error connecting to GitHub Copilot. Check your internet connection.''"
    using C6_error_priority[of "exampleEnv connection_refused_output [] 0" "''p''" None "''/w''" "[]" "[LF]"]
          kn by (simp add: Let_def e j)
  have kg: "\<not> includes_str (toLowerCase ''all good'') ''no authentication''"
           "\<not> includes_str (toLowerCase ''all good'') ''not authenticated''"
           "\<not> includes_str (toLowerCase ''all good'') ''rate limit''"
           "\<not> includes_str (toLowerCase ''all good'') ''too many requests''"
           "\<not> includes_str (toLowerCase ''all good'') ''network error''"
           "\<not> includes_str (toLowerCase ''all good'') ''connection refused''"
           "\<not> startsWith (toLowerCase (trim ''all good'')) ''error:''"
           "\<not> includes_str (toLowerCase ''all good'') (LF # ''error:'')"
           "formatCommandError 3 ''all good'' = ''Command failed with code 3: all good''"
    by code_simp+
  have g: "error (execute (exampleEnv ''all good'' [] 3) ''p'' ''/w'' None)
     = Some ''Command failed with code 3: all good''"
    using C6_error_priority[of "exampleEnv ''all good'' [] 3" "''p''" None "''/w''" "[]" "[LF]"]
          kg by (simp add: Let_def e j)
  from d0 d7 b a t n g show ?thesis by simp
qed

lemma fold_onLine:
  "fold (onLine env) ls (outputLines, seen) =
     (outputLines @ ls,
      seen @ map Progress (concat (map (\<lambda>l. case detectStepFromOutput env l of
                                               None \<Rightarrow> []
                                             | Some step \<Rightarrow> if step \<noteq> [] then [step] else []) ls)))"
proof (induction ls arbitrary: outputLines seen)
  case Nil show ?case by simp
next
  case (Cons l ls)
  have step: "onLine env l (outputLines, seen) =
     (outputLines @ [l],
      seen @ map Progress (case detectStepFromOutput env l of
                             None \<Rightarrow> []
                           | Some step \<Rightarrow> if step \<noteq> [] then [step] else []))"
    by (cases "detectStepFromOutput env l") (simp_all add: onLine_def)
  show ?case by (simp add: step Cons.IH)
qed

text \<open>
  C9. What the caller of \<open>executeStreaming\<close> observes is the calls of \<open>onProgress\<close>,
  one for each output line that stands for a step, in the order of the lines, and then,
  last and once, the result: no call of \<open>onProgress\<close> comes after it. The result is the
  one \<open>execute\<close> gives for the lines joined by line feeds and the same exit code.
\<close>

theorem C9_progress_before_result:
  "let ls = fst (streamed env cliCommand (buildArgs (isWindows env) prompt options) workDir);
       code = snd (streamed env cliCommand (buildArgs (isWindows env) prompt options) workDir);
       steps = concat (map (\<lambda>l. case detectStepFromOutput env l of
                                    None \<Rightarrow> []
                                  | Some step \<Rightarrow> if step \<noteq> [] then [step] else []) ls);
       captured = \<lparr> stdout = join [LF] ls, stderr = [], exitCode = code \<rparr>
   in executeStreaming env prompt workDir options
        = map Progress steps
          @ [Returned (execute (env\<lparr> execCommand := (\<lambda>cmd args wd. captured) \<rparr>) prompt workDir options)]"
proof -
  obtain ls code where s: "streamed env cliCommand (buildArgs (isWindows env) prompt options) workDir = (ls, code)"
    by (cases "streamed env cliCommand (buildArgs (isWindows env) prompt options) workDir")
  show ?thesis
    by (simp add: Let_def s executeStreaming_def execCommandStreaming_def fold_onLine execute_def)
qed

theorem C9_progress_before_result_witness:
  "executeStreaming (exampleEnv [] scenario_lines 0) ''p'' ''/w'' None
     = [Progress ''reading'', Progress ''implementing'', Progress ''testing'',
        Returned \<lparr> success = True,
                   response = ''Reading code...'' @ [LF] @ ''Implementing feature'' @ [LF] @ ''Tests passed'',
                   inputTokens = 0, outputTokens = 0, cost = Some ''duration:5'', error = None \<rparr>]"
proof -
  let ?env = "exampleEnv [] scenario_lines 0"
  let ?captured = "\<lparr> stdout = join [LF] scenario_lines, stderr = [], exitCode = 0 \<rparr>"
  have s: "streamed ?env cliCommand (buildArgs (isWindows ?env) ''p'' None) ''/w'' = (scenario_lines, 0)"
    by (simp add: exampleEnv_def)
  have d: "concat (map (\<lambda>l. case detectStepFromOutput ?env l of
                               None \<Rightarrow> []
                             | Some step \<Rightarrow> if step \<noteq> [] then [step] else []) scenario_lines)
            = [''reading'', ''implementing'', ''testing'']"
    by (simp add: exampleEnv_def scenario_lines_def startsWith_def)
  have r: "execute (?env\<lparr> execCommand := (\<lambda>cmd args wd. ?captured) \<rparr>) ''p'' ''/w'' None
            = \<lparr> success = True,
                response = ''Reading code...'' @ [LF] @ ''Implementing feature'' @ [LF] @ ''Tests passed'',
                inputTokens = 0, outputTokens = 0, cost = Some ''duration:5'', error = None \<rparr>"
    by code_simp
  from C9_progress_before_result[of ?env "''p''" None "''/w''"] s d r
  show ?thesis by (simp add: Let_def)
qed

end
